theory Spec2Isabelle
  imports Main
begin

section \<open>VaultSafe: the add command and its console helpers\<close>

text \<open>
  A shallow embedding of \<^verbatim>\<open>vaultsafe/commands/add.py\<close> and of the helpers of
  \<^verbatim>\<open>vaultsafe/utils/cli_utils.py\<close> it calls. The command is a sequence of effects on the
  process's surroundings; they are made explicit as a \<open>world\<close> that every step takes and
  returns: whether the database file exists, the committed rows of the vault, the ordered
  list of committed points, the state of the random source, the lines waiting on standard
  input and what was shown on the console.
\<close>

subsection \<open>Outcomes, errors and console events\<close>

text \<open>
  \<open>EOFError\<close> is what Python's \<^verbatim>\<open>input()\<close> raises at the end of the input;
  \<open>IntegrityError\<close> is what a commit raises when the store refuses a row. Neither is caught
  in \<^verbatim>\<open>add\<close>. A run of the command ends by returning, by \<^verbatim>\<open>sys.exit(n)\<close> or by an
  uncaught exception.
\<close>

datatype error = EOFError | IntegrityError

datatype outcome = Returned | Exited nat | Raised error

datatype field =
  Username | Password | Url | PrimaryEmail | SecondaryEmail | Token | RecoveryKey | Notes

datatype event =
    BasicInfo
  | NoVaultFound
  | InitHint
  | RuleAddCredential
  | AskMasterPassword
  | Prompt field
  | AddedPanel field
  | MnemonicExists string
  | Success string
  | PrintOnScreen

subsection \<open>Rows, the vault and the world\<close>

text \<open>
  The keyword arguments of \<^verbatim>\<open>Credential(...)\<close> in \<^verbatim>\<open>add\<close> (lines 131 to 142). An optional
  column holds \<open>None\<close> (Python's \<^verbatim>\<open>None\<close>) or a ciphertext. The column \<^verbatim>\<open>notes\<close> is
  \<open>notes_field\<close> here, the plain name being reserved by the proof language.
\<close>

record credential =
  name :: string
  url :: "string option"
  username :: "string option"
  password :: "string option"
  encrypted_key :: string
  token :: "string option"
  recovery_key :: "string option"
  primary_email :: "string option"
  secondary_email :: "string option"
  notes_field :: "string option"

text \<open>
  Modelled from the spec: the tables of \<^verbatim>\<open>vaultsafe/db/models.py\<close>, which is not among the
  sources. Section 6 gives the persisted schema: a credential record, and a mnemonic record
  made of the alias and a reference to the owning credential. The reference is the primary
  key that the store assigns to the credential row when it is inserted.
\<close>

record vault =
  credentials :: "(nat \<times> credential) list"
  mnemonics :: "(string \<times> nat) list"
  next_id :: nat

datatype row = CredentialRow credential | MnemonicRow string nat

record 'r world =
  database_exists :: bool
  committed :: vault
  history :: "vault list"
  entropy :: 'r
  stdin :: "string list"
  console :: "event list"

text \<open>
  The functions of \<^verbatim>\<open>vaultsafe/utils/crypto_utils.py\<close> are not among the sources; \<^verbatim>\<open>add\<close>
  is modelled over any implementation of them. The key generator and the cipher draw from
  the random source, so they take its state and return the next one.
\<close>

record 'r crypto =
  derive_vault_key :: "string \<Rightarrow> string"
  generate_fernet_key :: "'r \<Rightarrow> string \<times> 'r"
  encrypt :: "string \<Rightarrow> string \<Rightarrow> 'r \<Rightarrow> string \<times> 'r"

text \<open>The command line of \<^verbatim>\<open>add\<close>: two valued options and eight flags (lines 16 to 27).\<close>

record request =
  arg_name :: string
  arg_mnemonics :: "string list"
  arg_username :: bool
  arg_password :: bool
  arg_recovery_key :: bool
  arg_url :: bool
  arg_primary_email :: bool
  arg_secondary_email :: bool
  arg_token :: bool
  arg_notes :: bool

text \<open>
  What the prompting collaborators return when they are called: \<^verbatim>\<open>click.prompt\<close> for the
  four plain fields, and \<^verbatim>\<open>get_password\<close> and \<^verbatim>\<open>input_master_passwd_and_verify\<close> of
  \<^verbatim>\<open>vaultsafe/utils/auth_utils.py\<close> (not among the sources). The last one either returns
  the verified master password or ends the run itself.
\<close>

record answers =
  master_passwd_ans :: "outcome + string"
  username_ans :: string
  password_ans :: string
  url_ans :: string
  primary_email_ans :: string
  secondary_email_ans :: string
  token_ans :: string
  recovery_key_ans :: string

subsection \<open>cli\_utils.py\<close>

definition emit :: "event \<Rightarrow> 'r world \<Rightarrow> 'r world" where
  "emit e w = w\<lparr>console := console w @ [e]\<rparr>"

text \<open>Python's \<^verbatim>\<open>"\n".join(xs)\<close>.\<close>

fun newline_join :: "string list \<Rightarrow> string" where
  "newline_join [] = []"
| "newline_join [l] = l"
| "newline_join (l # ls) = l @ [CHR 0x0A] @ newline_join ls"

text \<open>
  The \<^verbatim>\<open>while True\<close> loop of \<^verbatim>\<open>multiline_input\<close> (lines 34 to 42), with its two local
  variables and the lines still to be read. \<^verbatim>\<open>input()\<close> on an exhausted input raises.
  The loop leaves through \<^verbatim>\<open>break\<close> with the lines collected so far; the line that
  triggers the \<^verbatim>\<open>break\<close> is not appended.
\<close>

fun read_lines :: "string list \<Rightarrow> nat \<Rightarrow> string list \<Rightarrow> error + (string list \<times> string list)" where
  "read_lines lines empty_line_count [] = Inl EOFError"
| "read_lines lines empty_line_count (line # rest) =
     (if line = [] then
        (if empty_line_count + 1 = 3 then Inr (lines, rest)
         else read_lines (lines @ [line]) (empty_line_count + 1) rest)
      else read_lines (lines @ [line]) 0 rest)"

text \<open>
  \<^verbatim>\<open>multiline_input\<close> (lines 29 to 43): show the panel, run the loop, return
  \<^verbatim>\<open>"\n".join(lines[:-2])\<close>. The slice \<^verbatim>\<open>lines[:-2]\<close> is empty on fewer than two lines,
  as truncating subtraction makes \<open>take\<close> here.
\<close>

definition multiline_input :: "'r world \<Rightarrow> (error + string) \<times> 'r world" where
  "multiline_input w0 =
     (let w1 = emit (Prompt Notes) w0 in
      case read_lines [] 0 (stdin w1) of
        Inl e \<Rightarrow> (Inl e, w1\<lparr>stdin := []\<rparr>)
      | Inr (lines, rest) \<Rightarrow>
          (Inr (newline_join (take (length lines - 2) lines)), w1\<lparr>stdin := rest\<rparr>))"

definition check_db_init :: "'r world \<Rightarrow> bool" where
  "check_db_init w = (if \<not> database_exists w then False else True)"

definition assert_db_init :: "'r world \<Rightarrow> (outcome + unit) \<times> 'r world" where
  "assert_db_init w =
     (if \<not> check_db_init w then (Inl (Exited 1), emit InitHint (emit NoVaultFound w))
      else (Inr (), w))"

definition print_basic_info :: "'r world \<Rightarrow> 'r world" where
  "print_basic_info w = emit BasicInfo w"

subsection \<open>The store\<close>

text \<open>
  Modelled from the spec: the persistence engine behind \<^verbatim>\<open>session\<close> of
  \<^verbatim>\<open>vaultsafe/db/models.py\<close>, which is not among the sources. Section 6 asks of it atomic
  multi-row transactions and the enforcement of the unique constraint on the alias of a
  mnemonic record. A commit writes the rows added to the session since the last commit, in
  order; when the store refuses one of them nothing of the batch is written and the commit
  raises. Every successful commit is a committed point, recorded in \<open>history\<close>.
\<close>

fun insert_row :: "row \<Rightarrow> vault \<Rightarrow> vault option" where
  "insert_row (CredentialRow c) v =
     Some (v\<lparr>credentials := credentials v @ [(next_id v, c)], next_id := next_id v + 1\<rparr>)"
| "insert_row (MnemonicRow m cid) v =
     (if m \<in> set (map fst (mnemonics v)) then None
      else Some (v\<lparr>mnemonics := mnemonics v @ [(m, cid)]\<rparr>))"

fun flush :: "row list \<Rightarrow> vault \<Rightarrow> vault option" where
  "flush [] v = Some v"
| "flush (r # rs) v = (case insert_row r v of None \<Rightarrow> None | Some v' \<Rightarrow> flush rs v')"

definition session_commit :: "row list \<Rightarrow> 'r world \<Rightarrow> (error + unit) \<times> 'r world" where
  "session_commit added w =
     (case flush added (committed w) of
        None \<Rightarrow> (Inl IntegrityError, w)
      | Some v \<Rightarrow> (Inr (), w\<lparr>committed := v, history := history w @ [v]\<rparr>))"

subsection \<open>add.py\<close>

text \<open>
  The values of the eight local variables after the prompts (lines 73 to 110): \<open>None\<close> when
  the flag was not given (the variable still holds \<^verbatim>\<open>False\<close>), otherwise the string
  that the prompt returned.
\<close>

record prompted =
  p_username :: "string option"
  p_password :: "string option"
  p_url :: "string option"
  p_primary_email :: "string option"
  p_secondary_email :: "string option"
  p_token :: "string option"
  p_recovery_key :: "string option"
  p_notes :: "string option"

text \<open>\<^verbatim>\<open>if flag: var = click.prompt(..., default='')\<close>\<close>

definition prompt_if :: "field \<Rightarrow> bool \<Rightarrow> string \<Rightarrow> 'r world \<Rightarrow> string option \<times> 'r world" where
  "prompt_if f flag answer w = (if flag then (Some answer, emit (Prompt f) w) else (None, w))"

text \<open>\<^verbatim>\<open>if flag: var = get_password(...); console.print(Panel(...))\<close>\<close>

definition secret_if :: "field \<Rightarrow> bool \<Rightarrow> string \<Rightarrow> 'r world \<Rightarrow> string option \<times> 'r world" where
  "secret_if f flag answer w =
     (if flag then (Some answer, emit (AddedPanel f) (emit (Prompt f) w)) else (None, w))"

definition input_master_passwd_and_verify ::
    "answers \<Rightarrow> 'r world \<Rightarrow> (outcome + string) \<times> 'r world" where
  "input_master_passwd_and_verify an w = (master_passwd_ans an, emit AskMasterPassword w)"

text \<open>Lines 73 to 110 of \<^verbatim>\<open>add\<close>, in the order of the source.\<close>

definition prompt_fields :: "request \<Rightarrow> answers \<Rightarrow> 'r world \<Rightarrow> (error + prompted) \<times> 'r world" where
  "prompt_fields rq an w0 =
     (let (v_username, w1) = prompt_if Username (arg_username rq) (username_ans an) w0;
          (v_password, w2) = secret_if Password (arg_password rq) (password_ans an) w1;
          (v_url, w3) = prompt_if Url (arg_url rq) (url_ans an) w2;
          (v_primary_email, w4) =
             prompt_if PrimaryEmail (arg_primary_email rq) (primary_email_ans an) w3;
          (v_secondary_email, w5) =
             prompt_if SecondaryEmail (arg_secondary_email rq) (secondary_email_ans an) w4;
          (v_token, w6) = secret_if Token (arg_token rq) (token_ans an) w5;
          (v_recovery_key, w7) =
             secret_if RecoveryKey (arg_recovery_key rq) (recovery_key_ans an) w6
      in if arg_notes rq then
           (case multiline_input w7 of
              (Inl e, w8) \<Rightarrow> (Inl e, w8)
            | (Inr v_notes, w8) \<Rightarrow>
                (Inr \<lparr>p_username = v_username, p_password = v_password, p_url = v_url,
                      p_primary_email = v_primary_email,
                      p_secondary_email = v_secondary_email, p_token = v_token,
                      p_recovery_key = v_recovery_key, p_notes = Some v_notes\<rparr>, w8))
         else
           (Inr \<lparr>p_username = v_username, p_password = v_password, p_url = v_url,
                 p_primary_email = v_primary_email,
                 p_secondary_email = v_secondary_email, p_token = v_token,
                 p_recovery_key = v_recovery_key, p_notes = None\<rparr>, w7))"

text \<open>
  \<^verbatim>\<open>encrypt(x, credential_key) if x else None\<close>: the cipher runs only on a truthy value,
  that is on a non-empty string; \<^verbatim>\<open>False\<close> and \<^verbatim>\<open>''\<close> give \<^verbatim>\<open>None\<close>.
\<close>

definition encrypt_if :: "'r crypto \<Rightarrow> string option \<Rightarrow> string \<Rightarrow> 'r \<Rightarrow> string option \<times> 'r" where
  "encrypt_if cr x key r =
     (case x of
        None \<Rightarrow> (None, r)
      | Some s \<Rightarrow>
          if s \<noteq> [] then (let (c, r') = encrypt cr s key r in (Some c, r')) else (None, r))"

text \<open>Lines 113 to 142 of \<^verbatim>\<open>add\<close>, in the order of the source.\<close>

definition encrypt_credential ::
    "'r crypto \<Rightarrow> string \<Rightarrow> string \<Rightarrow> prompted \<Rightarrow> 'r world \<Rightarrow> credential \<times> 'r world" where
  "encrypt_credential cr master_passwd nm p w =
     (let vault_key = derive_vault_key cr master_passwd;
          (credential_key, r0) = generate_fernet_key cr (entropy w);
          (encrypted_username, r1) = encrypt_if cr (p_username p) credential_key r0;
          (encrypted_password, r2) = encrypt_if cr (p_password p) credential_key r1;
          (encrypted_url, r3) = encrypt_if cr (p_url p) credential_key r2;
          (encrypted_recovery_key, r4) = encrypt_if cr (p_recovery_key p) credential_key r3;
          (encrypted_primary_email, r5) = encrypt_if cr (p_primary_email p) credential_key r4;
          (encrypted_secondary_email, r6) =
             encrypt_if cr (p_secondary_email p) credential_key r5;
          (encrypted_token, r7) = encrypt_if cr (p_token p) credential_key r6;
          (encrypted_notes, r8) = encrypt_if cr (p_notes p) credential_key r7;
          (encrypted_credential_key, r9) = encrypt cr credential_key vault_key r8
      in (\<lparr>name = nm, url = encrypted_url, username = encrypted_username,
           password = encrypted_password, encrypted_key = encrypted_credential_key,
           token = encrypted_token, recovery_key = encrypted_recovery_key,
           primary_email = encrypted_primary_email,
           secondary_email = encrypted_secondary_email,
           notes_field = encrypted_notes\<rparr>,
          w\<lparr>entropy := r9\<rparr>))"

text \<open>
  Line 145 and 146: the names of the stored mnemonic rows that are among the requested
  ones, as a set.
\<close>

definition existing_mnemonic_names :: "string list \<Rightarrow> vault \<Rightarrow> string set" where
  "existing_mnemonic_names ms v = set (filter (\<lambda>n. n \<in> set ms) (map fst (mnemonics v)))"

text \<open>
  Lines 144 to 167 of \<^verbatim>\<open>add\<close>. The first loop prints its note at the first requested
  mnemonic found among the existing ones and returns. Otherwise the credential is added
  to the session and committed, then one mnemonic row per requested mnemonic, in order,
  each referring to the credential, and a second commit.
\<close>

definition persist :: "request \<Rightarrow> credential \<Rightarrow> 'r world \<Rightarrow> outcome \<times> 'r world" where
  "persist rq cred w =
     (case find (\<lambda>m. m \<in> existing_mnemonic_names (arg_mnemonics rq) (committed w))
                (arg_mnemonics rq) of
        Some m \<Rightarrow> (Returned, emit (MnemonicExists m) w)
      | None \<Rightarrow>
          let cid = next_id (committed w) in
          (case session_commit [CredentialRow cred] w of
             (Inl e, w1) \<Rightarrow> (Raised e, w1)
           | (Inr u, w1) \<Rightarrow>
               (case session_commit (map (\<lambda>m. MnemonicRow m cid) (arg_mnemonics rq)) w1 of
                  (Inl e, w2) \<Rightarrow> (Raised e, w2)
                | (Inr u', w2) \<Rightarrow>
                    (Returned, emit PrintOnScreen (emit (Success (name cred)) w2)))))"

text \<open>The command \<^verbatim>\<open>add\<close> (lines 64 to 167).\<close>

definition add :: "'r crypto \<Rightarrow> request \<Rightarrow> answers \<Rightarrow> 'r world \<Rightarrow> outcome \<times> 'r world" where
  "add cr rq an w0 =
     (let w1 = print_basic_info w0 in
      case assert_db_init w1 of
        (Inl out, w2) \<Rightarrow> (out, w2)
      | (Inr u, w2) \<Rightarrow>
          let w3 = emit RuleAddCredential w2 in
          (case input_master_passwd_and_verify an w3 of
             (Inl out, w4) \<Rightarrow> (out, w4)
           | (Inr master_passwd, w4) \<Rightarrow>
               (case prompt_fields rq an w4 of
                  (Inl e, w5) \<Rightarrow> (Raised e, w5)
                | (Inr p, w5) \<Rightarrow>
                    let (cred, w6) = encrypt_credential cr master_passwd (arg_name rq) p w5
                    in persist rq cred w6)))"

subsection \<open>add.py, one access to the store at a time\<close>

text \<open>
  Lines 144 to 162 once more, cut at the three points where the run talks to the store:
  the query of line 145 with the loop that follows it, the commit of the credential row,
  and the commit of the mnemonic rows. Between two of these points another process may
  run its own. A run is at one of these points or has ended: with the note and the
  \<^verbatim>\<open>return\<close> of the first loop, with an exception, or with both commits done. The
  credential row gets its key when it is inserted, and the mnemonic rows refer to it.
\<close>

datatype verdict = Rejected string | Failed error | Succeeded

datatype stage = Checking | Inserting | Linking nat | Ended verdict

fun outcome_of :: "verdict \<Rightarrow> outcome" where
  "outcome_of (Rejected m) = Returned"
| "outcome_of (Failed e) = Raised e"
| "outcome_of Succeeded = Returned"

fun persist_step :: "request \<Rightarrow> credential \<Rightarrow> stage \<Rightarrow> vault \<Rightarrow> stage \<times> vault" where
  "persist_step rq cred Checking v =
     (case find (\<lambda>m. m \<in> existing_mnemonic_names (arg_mnemonics rq) v) (arg_mnemonics rq) of
        Some m \<Rightarrow> (Ended (Rejected m), v)
      | None \<Rightarrow> (Inserting, v))"
| "persist_step rq cred Inserting v =
     (case flush [CredentialRow cred] v of
        None \<Rightarrow> (Ended (Failed IntegrityError), v)
      | Some v' \<Rightarrow> (Linking (next_id v), v'))"
| "persist_step rq cred (Linking cid) v =
     (case flush (map (\<lambda>m. MnemonicRow m cid) (arg_mnemonics rq)) v of
        None \<Rightarrow> (Ended (Failed IntegrityError), v)
      | Some v' \<Rightarrow> (Ended Succeeded, v'))"
| "persist_step rq cred (Ended r) v = (Ended r, v)"



subsection \<open>Notions used by the properties\<close>

text \<open>
  The position of the first three consecutive empty lines of an input, counted from its
  start, if there is one: \<open>starts_triple\<close> tests one position, \<open>first_triple\<close> tries
  the positions from left to right.
\<close>

fun starts_triple :: "string list \<Rightarrow> bool" where
  "starts_triple (a # b # c # ls) = (a = [] \<and> b = [] \<and> c = [])"
| "starts_triple ls = False"

fun first_triple :: "string list \<Rightarrow> nat option" where
  "first_triple [] = None"
| "first_triple (l # ls) =
     (if starts_triple (l # ls) then Some 0 else map_option Suc (first_triple ls))"

text \<open>
  The values of the eight local variables after the prompts, when the prompts return:
  what \<open>prompt_fields\<close> computes, as one record. \<open>notes_value\<close> is the value of
  \<^verbatim>\<open>notes\<close>: the text that \<^verbatim>\<open>multiline_input\<close> reads from the input.
\<close>

definition plain_values :: "request \<Rightarrow> answers \<Rightarrow> string option \<Rightarrow> prompted" where
  "plain_values rq an nt =
     \<lparr>p_username = (if arg_username rq then Some (username_ans an) else None),
      p_password = (if arg_password rq then Some (password_ans an) else None),
      p_url = (if arg_url rq then Some (url_ans an) else None),
      p_primary_email = (if arg_primary_email rq then Some (primary_email_ans an) else None),
      p_secondary_email =
        (if arg_secondary_email rq then Some (secondary_email_ans an) else None),
      p_token = (if arg_token rq then Some (token_ans an) else None),
      p_recovery_key = (if arg_recovery_key rq then Some (recovery_key_ans an) else None),
      p_notes = nt\<rparr>"

definition notes_value :: "request \<Rightarrow> 'r world \<Rightarrow> string option" where
  "notes_value rq w =
     (if arg_notes rq
      then (case fst (multiline_input w) of Inl e \<Rightarrow> None | Inr t \<Rightarrow> Some t)
      else None)"

text \<open>
  The key that \<^verbatim>\<open>generate_fernet_key()\<close> returns in a run that starts in world \<open>w\<close>: the
  first draw from the random source, which no earlier step of \<^verbatim>\<open>add\<close> touches.
\<close>

definition drawn_key :: "'r crypto \<Rightarrow> 'r world \<Rightarrow> string" where
  "drawn_key cr w = fst (generate_fernet_key cr (entropy w))"

text \<open>
  What is asked of the random source for keys to be fresh, with \<open>tick\<close> the number of
  draws it has served: the key generator moves it forward, the cipher never moves it
  back, and keys drawn at different positions are different keys. The sources say nothing
  of \<^verbatim>\<open>generate_fernet_key\<close>; the spec (section 4.2) asks this of it.
\<close>

definition fresh_source :: "'r crypto \<Rightarrow> ('r \<Rightarrow> nat) \<Rightarrow> bool" where
  "fresh_source cr tick \<longleftrightarrow>
     (\<forall>r. tick r < tick (snd (generate_fernet_key cr r))) \<and>
     (\<forall>p k r. tick r \<le> tick (snd (encrypt cr p k r))) \<and>
     (\<forall>r r'. fst (generate_fernet_key cr r) = fst (generate_fernet_key cr r') \<longrightarrow>
        tick r = tick r')"

text \<open>
  The invariant of the mnemonic table: no two rows with the same alias.
\<close>

definition unique_aliases :: "vault \<Rightarrow> bool" where
  "unique_aliases v = distinct (map fst (mnemonics v))"

text \<open>
  The mnemonics named by the notes \<^verbatim>\<open>The mnemonic '...' already exists\<close> on the console, in
  the order they were printed.
\<close>

fun named_mnemonics :: "event list \<Rightarrow> string list" where
  "named_mnemonics [] = []"
| "named_mnemonics (MnemonicExists m # es) = m # named_mnemonics es"
| "named_mnemonics (e # es) = named_mnemonics es"

text \<open>
  A sequence of invocations of the command, each with its own command line and answers,
  one after the other on the same surroundings.
\<close>

fun add_all :: "'r crypto \<Rightarrow> (request \<times> answers) list \<Rightarrow> 'r world \<Rightarrow> 'r world" where
  "add_all cr [] w = w"
| "add_all cr ((rq, an) # runs) w = add_all cr runs (snd (add cr rq an w))"

text \<open>
  The command line with the flag of every field cleared whose prompt returns the empty
  string (for the notes: whose \<^verbatim>\<open>multiline_input\<close> returns the empty string).
\<close>

definition drop_empty :: "request \<Rightarrow> answers \<Rightarrow> 'r world \<Rightarrow> request" where
  "drop_empty rq an w =
     rq\<lparr>arg_username := arg_username rq \<and> username_ans an \<noteq> [],
        arg_password := arg_password rq \<and> password_ans an \<noteq> [],
        arg_url := arg_url rq \<and> url_ans an \<noteq> [],
        arg_primary_email := arg_primary_email rq \<and> primary_email_ans an \<noteq> [],
        arg_secondary_email := arg_secondary_email rq \<and> secondary_email_ans an \<noteq> [],
        arg_token := arg_token rq \<and> token_ans an \<noteq> [],
        arg_recovery_key := arg_recovery_key rq \<and> recovery_key_ans an \<noteq> [],
        arg_notes := arg_notes rq \<and> fst (multiline_input w) \<noteq> Inr []\<rparr>"

subsection \<open>A concrete instance\<close>

text \<open>
  A stand-in for the cryptographic functions with a counter as random source, an empty
  vault and one run of the command, used to evaluate the model on concrete inputs.
\<close>

definition sample_crypto :: "nat crypto" where
  "sample_crypto =
     \<lparr>derive_vault_key = (\<lambda>pw. ''vk/'' @ pw),
      generate_fernet_key = (\<lambda>r. (replicate (Suc r) CHR ''k'', Suc r)),
      encrypt = (\<lambda>p k r. (k @ '':'' @ p, Suc r))\<rparr>"

definition empty_vault :: vault where
  "empty_vault = \<lparr>credentials = [], mnemonics = [], next_id = 0\<rparr>"

definition sample_world :: "nat world" where
  "sample_world =
     \<lparr>database_exists = True, committed = empty_vault, history = [], entropy = 0,
      stdin = [''a'', [], ''b'', [], [], [], ''z''], console = []\<rparr>"

definition sample_request :: request where
  "sample_request =
     \<lparr>arg_name = ''Gmail'', arg_mnemonics = [''g1'', ''g2''], arg_username = False,
      arg_password = True, arg_recovery_key = False, arg_url = False,
      arg_primary_email = False, arg_secondary_email = False, arg_token = False,
      arg_notes = False\<rparr>"

definition sample_answers :: answers where
  "sample_answers =
     \<lparr>master_passwd_ans = Inr ''Secret123'', username_ans = ''indrajit'',
      password_ans = ''hunter2'', url_ans = [], primary_email_ans = [],
      secondary_email_ans = [], token_ans = [], recovery_key_ans = []\<rparr>"

text \<open>
  The world after the sample run; a second command line asking for two of its aliases
  again; one that repeats an alias; and a run whose username and notes prompts are
  answered with nothing.
\<close>

definition stocked_world :: "nat world" where
  "stocked_world = snd (add sample_crypto sample_request sample_answers sample_world)"

definition second_request :: request where
  "second_request = sample_request\<lparr>arg_name := ''Mail'', arg_mnemonics := [''g3'', ''g2'', ''g1'']\<rparr>"

definition repeated_request :: request where
  "repeated_request = sample_request\<lparr>arg_mnemonics := [''g1'', ''g1'']\<rparr>"

definition blank_request :: request where
  "blank_request = sample_request\<lparr>arg_username := True, arg_notes := True\<rparr>"

definition blank_answers :: answers where
  "blank_answers = sample_answers\<lparr>username_ans := []\<rparr>"

definition blank_world :: "nat world" where
  "blank_world = sample_world\<lparr>stdin := [[], [], [], ''z'']\<rparr>"

text \<open>
  A third command line with a free alias; and for two runs at once, a credential without
  fields and a command line that shares the alias \<open>g2\<close> with the sample one.
\<close>

definition third_request :: request where
  "third_request = sample_request\<lparr>arg_name := ''Bank'', arg_mnemonics := [''b1'']\<rparr>"



section \<open>Properties of multiline\_input\<close>

lemma starts_triple_take: "starts_triple ls \<longleftrightarrow> take 3 ls = [[], [], []]"
  by (cases ls rule: starts_triple.cases) auto

text \<open>A non-empty line ends a run of at most two empty lines without a triple.\<close>

lemma first_triple_skip:
  "l \<noteq> [] \<Longrightarrow> first_triple (l # ls) = map_option Suc (first_triple ls)"
  "l \<noteq> [] \<Longrightarrow> first_triple ([] # l # ls) = map_option (\<lambda>k. k + 2) (first_triple ls)"
  "l \<noteq> [] \<Longrightarrow> first_triple ([] # [] # l # ls) = map_option (\<lambda>k. k + 3) (first_triple ls)"
  by (auto simp: starts_triple_take option.map_comp comp_def eval_nat_numeral)

text \<open>
  The loop invariant: with \<open>c\<close> empty lines just read, the loop stops where the first
  triple of the remaining input, extended to the left by those \<open>c\<close> lines, ends.
\<close>

lemma read_lines_first_triple:
  "c \<le> 2 \<Longrightarrow> first_triple (replicate c [] @ ls) = Some n \<Longrightarrow>
   read_lines acc c ls = Inr (acc @ take (n + 2 - c) ls, drop (n + 3 - c) ls)"
proof (induction ls arbitrary: acc c n)
  case Nil
  then consider "c = 0" | "c = 1" | "c = 2" by linarith
  then show ?case using Nil.prems(2)
    by cases (simp_all add: numeral_2_eq_2)
next
  case (Cons l ls)
  from Cons.prems(1) consider "c = 0" | "c = 1" | "c = 2" by linarith
  then show ?case
  proof cases
    case 1
    show ?thesis
    proof (cases "l = []")
      case True
      with 1 Cons.prems(2) have "first_triple (replicate 1 [] @ ls) = Some n" by simp
      from Cons.IH [OF _ this, of "acc @ [l]"] 1 True show ?thesis
        by (simp add: eval_nat_numeral)
    next
      case False
      with 1 Cons.prems(2) obtain m where m: "first_triple ls = Some m" "n = Suc m"
        by (auto simp: first_triple_skip simp del: first_triple.simps)
      then have "first_triple (replicate 0 [] @ ls) = Some m" by simp
      from Cons.IH [OF _ this, of "acc @ [l]"] 1 False m show ?thesis
        by (simp add: eval_nat_numeral)
    qed
  next
    case 2
    show ?thesis
    proof (cases "l = []")
      case True
      with 2 Cons.prems(2) have "first_triple (replicate 2 [] @ ls) = Some n"
        by (simp add: numeral_2_eq_2)
      from Cons.IH [OF _ this, of "acc @ [l]"] 2 True show ?thesis
        by (simp add: eval_nat_numeral)
    next
      case False
      with 2 Cons.prems(2) obtain m where m: "first_triple ls = Some m" "n = m + 2"
        by (auto simp: first_triple_skip simp del: first_triple.simps)
      then have "first_triple (replicate 0 [] @ ls) = Some m" by simp
      from Cons.IH [OF _ this, of "acc @ [l]"] 2 False m show ?thesis
        by (simp add: eval_nat_numeral)
    qed
  next
    case 3
    show ?thesis
    proof (cases "l = []")
      case True
      with 3 Cons.prems(2) have "n = 0" by (simp add: numeral_2_eq_2)
      with 3 True show ?thesis by (simp add: eval_nat_numeral)
    next
      case False
      with 3 Cons.prems(2) obtain m where m: "first_triple ls = Some m" "n = m + 3"
        by (auto simp: first_triple_skip numeral_2_eq_2 simp del: first_triple.simps)
      then have "first_triple (replicate 0 [] @ ls) = Some m" by simp
      from Cons.IH [OF _ this, of "acc @ [l]"] 3 False m show ?thesis
        by (simp add: eval_nat_numeral)
    qed
  qed
qed

lemma first_triple_length: "first_triple ls = Some n \<Longrightarrow> n + 3 \<le> length ls"
proof (induction ls arbitrary: n)
  case Nil
  then show ?case by simp
next
  case (Cons l ls)
  show ?case
  proof (cases "starts_triple (l # ls)")
    case True
    then have "length (take 3 (l # ls)) = 3" by (simp only: starts_triple_take) simp
    with True Cons.prems show ?thesis by simp
  next
    case False
    with Cons show ?thesis by auto
  qed
qed

text \<open>
  \<open>first_triple\<close> is what its name says: at the position it returns three empty lines
  start and at no earlier position; and it returns a position whenever the input holds
  three consecutive empty lines.
\<close>

lemma first_triple_is_first:
  "first_triple ls = Some n \<Longrightarrow>
   starts_triple (drop n ls) \<and> (\<forall>i < n. \<not> starts_triple (drop i ls))"
proof (induction ls arbitrary: n)
  case Nil
  then show ?case by simp
next
  case (Cons l ls)
  show ?case
  proof (cases "starts_triple (l # ls)")
    case True
    with Cons.prems show ?thesis by simp
  next
    case False
    with Cons.prems obtain m where m: "first_triple ls = Some m" "n = Suc m"
      by auto
    from Cons.IH [OF m(1)] have "starts_triple (drop m ls)"
      and later: "\<forall>i < m. \<not> starts_triple (drop i ls)"
      by simp_all
    moreover have "\<not> starts_triple (drop i (l # ls))" if "i < Suc m" for i
      using that False later by (cases i) simp_all
    ultimately show ?thesis
      using m(2) by simp
  qed
qed

lemma first_triple_exists:
  "\<exists>n. first_triple (xs @ [] # [] # [] # rest) = Some n \<and> n \<le> length xs"
proof (induction xs)
  case Nil
  show ?case by simp
next
  case (Cons x xs)
  then obtain n where "first_triple (xs @ [] # [] # [] # rest) = Some n" "n \<le> length xs"
    by blast
  then show ?case
    by (cases "starts_triple (x # xs @ [] # [] # [] # rest)") simp_all
qed

text \<open>
  C9. When the input holds three consecutive empty lines, the first of them starting at
  position \<open>n\<close>, \<^verbatim>\<open>multiline_input\<close> returns (it does not raise), its result is the
  \<open>n\<close> lines before that position joined with newlines, so none of the three empty lines
  is part of it, and it has read exactly up to the third of them: the input left over is
  what follows position \<open>n + 2\<close>.
\<close>

theorem multiline_input_first_triple:
  assumes "first_triple (stdin w) = Some n"
  shows "multiline_input w =
           (Inr (newline_join (take n (stdin w))),
            (emit (Prompt Notes) w)\<lparr>stdin := drop (n + 3) (stdin w)\<rparr>)"
proof -
  have len: "n + 3 \<le> length (stdin w)"
    using assms by (rule first_triple_length)
  have "first_triple (replicate 0 [] @ stdin w) = Some n"
    using assms by simp
  then have "read_lines [] 0 (stdin w) =
      Inr ([] @ take (n + 2 - 0) (stdin w), drop (n + 3 - 0) (stdin w))"
    by (rule read_lines_first_triple [rotated]) simp
  moreover have "take (length (take (n + 2) (stdin w)) - 2) (take (n + 2) (stdin w)) =
      take n (stdin w)"
    using len by (simp add: min_def)
  ultimately show ?thesis
    by (simp add: multiline_input_def emit_def Let_def)
qed

theorem multiline_input_first_triple_witness:
  "first_triple (stdin sample_world) = Some 3 \<and>
   fst (multiline_input sample_world) = Inr (''a'' @ [CHR 0x0A, CHR 0x0A] @ ''b'') \<and>
   stdin (snd (multiline_input sample_world)) = [''z'']"
proof -
  have h: "first_triple (stdin sample_world) = Some 3"
    by (simp add: sample_world_def)
  show ?thesis
    using h multiline_input_first_triple [OF h]
    by (simp add: sample_world_def emit_def eval_nat_numeral)
qed

section \<open>The steps of add\<close>

subsection \<open>What the prompts leave untouched\<close>

lemma emit_frame [simp]:
  "committed (emit e w) = committed w"
  "history (emit e w) = history w"
  "entropy (emit e w) = entropy w"
  "stdin (emit e w) = stdin w"
  "database_exists (emit e w) = database_exists w"
  "console (emit e w) = console w @ [e]"
  by (simp_all add: emit_def)

lemma multiline_input_frame [simp]:
  "committed (snd (multiline_input w)) = committed w"
  "history (snd (multiline_input w)) = history w"
  "entropy (snd (multiline_input w)) = entropy w"
  by (simp_all add: multiline_input_def Let_def split: sum.splits prod.splits)

lemma multiline_input_stdin:
  "stdin w = stdin w' \<Longrightarrow> fst (multiline_input w) = fst (multiline_input w')"
  by (simp add: multiline_input_def Let_def split: sum.splits prod.splits)

lemma prompt_if_frame [simp]:
  "committed (snd (prompt_if f b a w)) = committed w"
  "history (snd (prompt_if f b a w)) = history w"
  "entropy (snd (prompt_if f b a w)) = entropy w"
  "stdin (snd (prompt_if f b a w)) = stdin w"
  "fst (prompt_if f b a w) = (if b then Some a else None)"
  by (simp_all add: prompt_if_def)

lemma secret_if_frame [simp]:
  "committed (snd (secret_if f b a w)) = committed w"
  "history (snd (secret_if f b a w)) = history w"
  "entropy (snd (secret_if f b a w)) = entropy w"
  "stdin (snd (secret_if f b a w)) = stdin w"
  "fst (secret_if f b a w) = (if b then Some a else None)"
  by (simp_all add: secret_if_def)

lemma prompt_fields_frame:
  "committed (snd (prompt_fields rq an w)) = committed w"
  "history (snd (prompt_fields rq an w)) = history w"
  "entropy (snd (prompt_fields rq an w)) = entropy w"
  by (simp_all add: prompt_fields_def split_def Let_def split: sum.splits)

text \<open>
  The result of the prompts: an \<^verbatim>\<open>EOFError\<close> out of \<^verbatim>\<open>multiline_input\<close>, or the
  answers of the prompts whose flag was given.
\<close>

lemma prompt_fields_fst:
  "fst (prompt_fields rq an w) =
     (if arg_notes rq then
        (case fst (multiline_input w) of
           Inl e \<Rightarrow> Inl e
         | Inr t \<Rightarrow> Inr (plain_values rq an (Some t)))
      else Inr (plain_values rq an None))"
proof -
  let ?w7 = "snd (secret_if RecoveryKey (arg_recovery_key rq) (recovery_key_ans an)
     (snd (secret_if Token (arg_token rq) (token_ans an)
     (snd (prompt_if SecondaryEmail (arg_secondary_email rq) (secondary_email_ans an)
     (snd (prompt_if PrimaryEmail (arg_primary_email rq) (primary_email_ans an)
     (snd (prompt_if Url (arg_url rq) (url_ans an)
     (snd (secret_if Password (arg_password rq) (password_ans an)
     (snd (prompt_if Username (arg_username rq) (username_ans an) w)))))))))))))"
  have st: "fst (multiline_input ?w7) = fst (multiline_input w)"
    by (rule multiline_input_stdin) simp
  show ?thesis
  proof (cases "arg_notes rq")
    case False
    then show ?thesis
      by (simp add: prompt_fields_def split_def Let_def plain_values_def split del: if_split)
  next
    case True
    obtain r w8 where m: "multiline_input ?w7 = (r, w8)" by (cases "multiline_input ?w7")
    with st have r: "fst (multiline_input w) = r" by simp
    show ?thesis
      using True m
      by (cases r) (simp_all add: prompt_fields_def split_def Let_def plain_values_def r
            split del: if_split)
  qed
qed

lemma plain_values_sel [simp]:
  "p_username (plain_values rq an nt) = (if arg_username rq then Some (username_ans an) else None)"
  "p_password (plain_values rq an nt) = (if arg_password rq then Some (password_ans an) else None)"
  "p_url (plain_values rq an nt) = (if arg_url rq then Some (url_ans an) else None)"
  "p_primary_email (plain_values rq an nt) =
     (if arg_primary_email rq then Some (primary_email_ans an) else None)"
  "p_secondary_email (plain_values rq an nt) =
     (if arg_secondary_email rq then Some (secondary_email_ans an) else None)"
  "p_token (plain_values rq an nt) = (if arg_token rq then Some (token_ans an) else None)"
  "p_recovery_key (plain_values rq an nt) =
     (if arg_recovery_key rq then Some (recovery_key_ans an) else None)"
  "p_notes (plain_values rq an nt) = nt"
  by (simp_all add: plain_values_def)

lemma named_mnemonics_append [simp]:
  "named_mnemonics (xs @ ys) = named_mnemonics xs @ named_mnemonics ys"
  by (induction xs rule: named_mnemonics.induct) simp_all

lemma named_mnemonics_prompts [simp]:
  "named_mnemonics (console (snd (prompt_if f b a w))) = named_mnemonics (console w)"
  "named_mnemonics (console (snd (secret_if f b a w))) = named_mnemonics (console w)"
  "named_mnemonics (console (snd (multiline_input w))) = named_mnemonics (console w)"
  by (simp_all add: prompt_if_def secret_if_def multiline_input_def Let_def
        split: sum.splits prod.splits)

lemma named_mnemonics_prompt_fields:
  "named_mnemonics (console (snd (prompt_fields rq an w))) = named_mnemonics (console w)"
proof -
  let ?w7 = "snd (secret_if RecoveryKey (arg_recovery_key rq) (recovery_key_ans an)
     (snd (secret_if Token (arg_token rq) (token_ans an)
     (snd (prompt_if SecondaryEmail (arg_secondary_email rq) (secondary_email_ans an)
     (snd (prompt_if PrimaryEmail (arg_primary_email rq) (primary_email_ans an)
     (snd (prompt_if Url (arg_url rq) (url_ans an)
     (snd (secret_if Password (arg_password rq) (password_ans an)
     (snd (prompt_if Username (arg_username rq) (username_ans an) w)))))))))))))"
  have a: "named_mnemonics (console ?w7) = named_mnemonics (console w)"
    by simp
  have b: "named_mnemonics (console (snd (multiline_input ?w7))) = named_mnemonics (console w)"
    by simp
  obtain r w8 where m: "multiline_input ?w7 = (r, w8)"
    by (cases "multiline_input ?w7")
  with b have c: "named_mnemonics (console w8) = named_mnemonics (console w)"
    by simp
  show ?thesis
    using a c m
    by (cases r; cases "arg_notes rq")
       (simp_all add: prompt_fields_def split_def Let_def split del: if_split)
qed

subsection \<open>Encryption\<close>

lemma encrypt_if_absent [simp]:
  "encrypt_if cr None k r = (None, r)"
  "encrypt_if cr (Some []) k r = (None, r)"
  by (simp_all add: encrypt_if_def)

lemma encrypt_if_present:
  "s \<noteq> [] \<Longrightarrow> fst (encrypt_if cr (Some s) k r) = Some (fst (encrypt cr s k r))"
  by (simp add: encrypt_if_def split_def Let_def)

lemma encrypt_credential_frame [simp]:
  "committed (snd (encrypt_credential cr pw nm p w)) = committed w"
  "history (snd (encrypt_credential cr pw nm p w)) = history w"
  "console (snd (encrypt_credential cr pw nm p w)) = console w"
  by (simp_all add: encrypt_credential_def split_def Let_def)

lemma encrypt_credential_entropy:
  "entropy w = entropy w' \<Longrightarrow>
   fst (encrypt_credential cr pw nm p w) = fst (encrypt_credential cr pw nm p w')"
  by (simp add: encrypt_credential_def split_def Let_def)

lemma encrypt_credential_entropy_snd:
  "entropy w = entropy w' \<Longrightarrow>
   entropy (snd (encrypt_credential cr pw nm p w)) =
   entropy (snd (encrypt_credential cr pw nm p w'))"
  by (simp add: encrypt_credential_def split_def Let_def)

text \<open>
  Every column of the credential is the result of one call of the cipher under the key
  drawn at the start, at some state of the random source.
\<close>

lemma encrypt_credential_fields:
  fixes cr :: "'r crypto" and w :: "'r world" and pw nm :: string and p :: prompted
  defines "k \<equiv> fst (generate_fernet_key cr (entropy w))"
  defines "c \<equiv> fst (encrypt_credential cr pw nm p w)"
  shows "name c = nm"
    and "\<exists>r. encrypted_key c = fst (encrypt cr k (derive_vault_key cr pw) r)"
    and "\<exists>r. username c = fst (encrypt_if cr (p_username p) k r)"
    and "\<exists>r. password c = fst (encrypt_if cr (p_password p) k r)"
    and "\<exists>r. url c = fst (encrypt_if cr (p_url p) k r)"
    and "\<exists>r. recovery_key c = fst (encrypt_if cr (p_recovery_key p) k r)"
    and "\<exists>r. primary_email c = fst (encrypt_if cr (p_primary_email p) k r)"
    and "\<exists>r. secondary_email c = fst (encrypt_if cr (p_secondary_email p) k r)"
    and "\<exists>r. token c = fst (encrypt_if cr (p_token p) k r)"
    and "\<exists>r. notes_field c = fst (encrypt_if cr (p_notes p) k r)"
  unfolding k_def c_def
  by (simp_all add: encrypt_credential_def split_def Let_def exI)

subsection \<open>The check and the two commits\<close>

lemma existing_mnemonic_names_eq:
  "existing_mnemonic_names ms v = set ms \<inter> fst ` set (mnemonics v)"
  by (auto simp: existing_mnemonic_names_def)

lemma find_existing:
  "find (\<lambda>m. m \<in> existing_mnemonic_names ms v) ms =
   find (\<lambda>m. m \<in> fst ` set (mnemonics v)) ms"
  by (rule find_cong) (auto simp: existing_mnemonic_names_eq)

text \<open>
  The store takes a batch of mnemonic rows exactly when the aliases are pairwise
  different and none of them is stored yet.
\<close>

lemma flush_mnemonics:
  "flush (map (\<lambda>m. MnemonicRow m cid) ms) v =
     (if distinct ms \<and> set ms \<inter> fst ` set (mnemonics v) = {}
      then Some (v\<lparr>mnemonics := mnemonics v @ map (\<lambda>m. (m, cid)) ms\<rparr>)
      else None)"
proof (induction ms arbitrary: v)
  case Nil
  show ?case by simp
next
  case (Cons m ms)
  show ?case
  proof (cases "m \<in> fst ` set (mnemonics v)")
    case True
    then show ?thesis by simp
  next
    case False
    then show ?thesis
      by (auto simp: Cons.IH image_Un)
  qed
qed

lemma persist_existing:
  assumes "find (\<lambda>m. m \<in> fst ` set (mnemonics (committed w))) (arg_mnemonics rq) = Some m"
  shows "persist rq c w = (Returned, emit (MnemonicExists m) w)"
  using assms by (simp add: persist_def find_existing)

lemma persist_free:
  assumes "find (\<lambda>m. m \<in> fst ` set (mnemonics (committed w))) (arg_mnemonics rq) = None"
  shows "persist rq c w =
     (let v = committed w;
          v1 = v\<lparr>credentials := credentials v @ [(next_id v, c)], next_id := next_id v + 1\<rparr>;
          v2 = v1\<lparr>mnemonics := mnemonics v @ map (\<lambda>m. (m, next_id v)) (arg_mnemonics rq)\<rparr>
      in if distinct (arg_mnemonics rq)
         then (Returned, emit PrintOnScreen (emit (Success (name c))
                 (w\<lparr>committed := v2, history := history w @ [v1, v2]\<rparr>)))
         else (Raised IntegrityError, w\<lparr>committed := v1, history := history w @ [v1]\<rparr>))"
proof -
  from assms have "set (arg_mnemonics rq) \<inter> fst ` set (mnemonics (committed w)) = {}"
    by (auto simp: find_None_iff)
  with assms show ?thesis
    by (simp add: persist_def find_existing session_commit_def flush_mnemonics Let_def)
qed

lemma persist_vault_cong:
  assumes "committed w = committed w2" and "history w = history w2"
    and "arg_mnemonics rq = arg_mnemonics rq2"
  shows "committed (snd (persist rq c w)) = committed (snd (persist rq2 c w2))"
    and "history (snd (persist rq c w)) = history (snd (persist rq2 c w2))"
    and "fst (persist rq c w) = fst (persist rq2 c w2)"
proof -
  show "committed (snd (persist rq c w)) = committed (snd (persist rq2 c w2))"
    using assms
    by (cases "find (\<lambda>m. m \<in> fst ` set (mnemonics (committed w))) (arg_mnemonics rq)")
       (simp_all add: persist_free persist_existing Let_def)
  show "history (snd (persist rq c w)) = history (snd (persist rq2 c w2))"
    using assms
    by (cases "find (\<lambda>m. m \<in> fst ` set (mnemonics (committed w))) (arg_mnemonics rq)")
       (simp_all add: persist_free persist_existing Let_def)
  show "fst (persist rq c w) = fst (persist rq2 c w2)"
    using assms
    by (cases "find (\<lambda>m. m \<in> fst ` set (mnemonics (committed w))) (arg_mnemonics rq)")
       (simp_all add: persist_free persist_existing Let_def)
qed

subsection \<open>The run as a whole\<close>

lemma add_unfold:
  fixes w :: "'r world"
  defines "w3 \<equiv> emit AskMasterPassword (emit RuleAddCredential (emit BasicInfo w))"
  assumes "database_exists w" and "master_passwd_ans an = Inr pw"
    and "fst (prompt_fields rq an w3) = Inr p"
  shows "add cr rq an w =
     persist rq (fst (encrypt_credential cr pw (arg_name rq) p w))
       (snd (encrypt_credential cr pw (arg_name rq) p (snd (prompt_fields rq an w3))))"
proof -
  have "fst (encrypt_credential cr pw (arg_name rq) p (snd (prompt_fields rq an w3))) =
        fst (encrypt_credential cr pw (arg_name rq) p w)"
    by (rule encrypt_credential_entropy) (simp add: prompt_fields_frame w3_def)
  with assms(2-4) show ?thesis
    unfolding w3_def
    by (cases "prompt_fields rq an (emit AskMasterPassword (emit RuleAddCredential (emit BasicInfo w)))")
       (simp add: add_def print_basic_info_def assert_db_init_def check_db_init_def
          input_master_passwd_and_verify_def Let_def split_def)
qed

lemma add_early:
  fixes w :: "'r world"
  defines "w3 \<equiv> emit AskMasterPassword (emit RuleAddCredential (emit BasicInfo w))"
  assumes "\<not> database_exists w \<or> (\<exists>out. master_passwd_ans an = Inl out) \<or>
     (\<exists>e. fst (prompt_fields rq an w3) = Inl e)"
  shows "committed (snd (add cr rq an w)) = committed w"
    and "history (snd (add cr rq an w)) = history w"
    and "entropy (snd (add cr rq an w)) = entropy w"
  using assms(2) prompt_fields_frame [of rq an w3] unfolding w3_def
  by (cases "prompt_fields rq an (emit AskMasterPassword (emit RuleAddCredential (emit BasicInfo w)))";
      auto simp: add_def print_basic_info_def assert_db_init_def check_db_init_def
          input_master_passwd_and_verify_def Let_def split: sum.splits)+

text \<open>
  A run either ends before the check of the mnemonics (no database, no verified master
  password, or the input ends inside the notes) and leaves the vault alone, or it reaches
  the check with the vault untouched and the credential built from the answers.
\<close>

lemma add_cases [case_names early reached]:
  fixes w :: "'r world"
  obtains
    (early) "\<not> database_exists w \<or> (\<exists>out. master_passwd_ans an = Inl out) \<or>
             (arg_notes rq \<and> (\<exists>e. fst (multiline_input w) = Inl e))"
      "committed (snd (add cr rq an w)) = committed w"
      "history (snd (add cr rq an w)) = history w"
      "entropy (snd (add cr rq an w)) = entropy w"
  | (reached) pw w6 where
      "database_exists w" "master_passwd_ans an = Inr pw"
      "arg_notes rq \<longrightarrow> (\<exists>t. fst (multiline_input w) = Inr t)"
      "committed w6 = committed w" "history w6 = history w"
      "named_mnemonics (console w6) = named_mnemonics (console w)"
      "add cr rq an w =
         persist rq (fst (encrypt_credential cr pw (arg_name rq)
                            (plain_values rq an (notes_value rq w)) w)) w6"
      "entropy w6 =
         entropy (snd (encrypt_credential cr pw (arg_name rq)
                         (plain_values rq an (notes_value rq w)) w))"
proof -
  define w3 where "w3 = emit AskMasterPassword (emit RuleAddCredential (emit BasicInfo w))"
  have st: "fst (multiline_input w3) = fst (multiline_input w)"
    by (rule multiline_input_stdin) (simp add: w3_def)
  have pf: "fst (prompt_fields rq an w3) =
     (if arg_notes rq then
        (case fst (multiline_input w) of
           Inl e \<Rightarrow> Inl e
         | Inr t \<Rightarrow> Inr (plain_values rq an (Some t)))
      else Inr (plain_values rq an None))"
    by (simp only: prompt_fields_fst st)
  show thesis
  proof (cases "\<not> database_exists w \<or> (\<exists>out. master_passwd_ans an = Inl out) \<or>
             (arg_notes rq \<and> (\<exists>e. fst (multiline_input w) = Inl e))")
    case True
    then have "\<not> database_exists w \<or> (\<exists>out. master_passwd_ans an = Inl out) \<or>
       (\<exists>e. fst (prompt_fields rq an w3) = Inl e)"
      by (auto simp: pf)
    then have "committed (snd (add cr rq an w)) = committed w"
      and "history (snd (add cr rq an w)) = history w"
      and "entropy (snd (add cr rq an w)) = entropy w"
      unfolding w3_def by (rule add_early)+
    with True show thesis by (rule early)
  next
    case False
    then obtain pw where db: "database_exists w" and pw: "master_passwd_ans an = Inr pw"
      by (cases "master_passwd_ans an") auto
    from False have nt: "arg_notes rq \<longrightarrow> (\<exists>t. fst (multiline_input w) = Inr t)"
      by (cases "fst (multiline_input w)") auto
    then have p: "fst (prompt_fields rq an w3) = Inr (plain_values rq an (notes_value rq w))"
      by (auto simp: pf notes_value_def)
    let ?w6 = "snd (encrypt_credential cr pw (arg_name rq)
       (plain_values rq an (notes_value rq w)) (snd (prompt_fields rq an w3)))"
    have "add cr rq an w =
         persist rq (fst (encrypt_credential cr pw (arg_name rq)
                            (plain_values rq an (notes_value rq w)) w)) ?w6"
      using db pw p unfolding w3_def by (rule add_unfold)
    moreover have "committed ?w6 = committed w" "history ?w6 = history w"
      by (simp_all add: prompt_fields_frame w3_def)
    moreover have "named_mnemonics (console ?w6) = named_mnemonics (console w)"
      by (simp add: named_mnemonics_prompt_fields w3_def)
    moreover have "entropy ?w6 =
         entropy (snd (encrypt_credential cr pw (arg_name rq)
                         (plain_values rq an (notes_value rq w)) w))"
      by (rule encrypt_credential_entropy_snd) (simp add: prompt_fields_frame w3_def)
    ultimately show thesis
      using db pw nt by (intro reached)
  qed
qed

lemma add_stored:
  assumes "add cr rq an w = (out, w')"
    and "credentials (committed w') \<noteq> credentials (committed w)"
  obtains pw where "master_passwd_ans an = Inr pw"
    and "arg_notes rq \<longrightarrow> (\<exists>t. fst (multiline_input w) = Inr t)"
    and "credentials (committed w') =
           credentials (committed w) @
           [(next_id (committed w),
             fst (encrypt_credential cr pw (arg_name rq)
                    (plain_values rq an (notes_value rq w)) w))]"
proof (cases rule: add_cases [of w an rq cr])
  case early
  with assms show ?thesis by simp
next
  case (reached pw w6)
  let ?c = "fst (encrypt_credential cr pw (arg_name rq) (plain_values rq an (notes_value rq w)) w)"
  show ?thesis
  proof (cases "find (\<lambda>m. m \<in> fst ` set (mnemonics (committed w6))) (arg_mnemonics rq)")
    case (Some m)
    then have "persist rq ?c w6 = (Returned, emit (MnemonicExists m) w6)"
      by (rule persist_existing)
    with reached assms show ?thesis by simp
  next
    case None
    from persist_free [OF None, of ?c] reached assms
    have "credentials (committed w') = credentials (committed w) @ [(next_id (committed w), ?c)]"
      by (auto simp: Let_def emit_def split: if_splits)
    with reached(2,3) show ?thesis by (rule that)
  qed
qed

subsection \<open>The random source\<close>

lemma fresh_source_draw:
  "fresh_source cr tick \<Longrightarrow> tick r < tick (snd (generate_fernet_key cr r))"
  unfolding fresh_source_def by blast

lemma fresh_source_encrypt:
  "fresh_source cr tick \<Longrightarrow> tick r \<le> tick (snd (encrypt cr p k r))"
  unfolding fresh_source_def by blast

lemma fresh_source_keys:
  "fresh_source cr tick \<Longrightarrow>
   fst (generate_fernet_key cr r) = fst (generate_fernet_key cr r') \<Longrightarrow> tick r = tick r'"
  unfolding fresh_source_def by blast

lemma persist_entropy: "entropy (snd (persist rq c w)) = entropy w"
  by (simp add: persist_def session_commit_def Let_def emit_def
        split: option.splits sum.splits prod.splits)

lemma encrypt_tick:
  assumes "fresh_source cr tick" and "tick a < tick r"
  shows "tick a < tick (snd (encrypt cr p k r))"
  using fresh_source_encrypt [OF assms(1), of r p k] assms(2) by simp

lemma encrypt_if_tick:
  assumes "fresh_source cr tick" and "tick a < tick r"
  shows "tick a < tick (snd (encrypt_if cr x k r))"
proof (cases x)
  case None
  with assms(2) show ?thesis by simp
next
  case (Some s)
  show ?thesis
  proof (cases "s = []")
    case True
    with Some assms(2) show ?thesis by simp
  next
    case False
    with Some have "snd (encrypt_if cr x k r) = snd (encrypt cr s k r)"
      by (simp add: encrypt_if_def split_def Let_def)
    with encrypt_tick [OF assms, of s k] show ?thesis by simp
  qed
qed

text \<open>
  Building the credential draws the key first and then runs the cipher up to nine times:
  the random source ends strictly ahead of where it started.
\<close>

lemma encrypt_credential_tick:
  assumes "fresh_source cr tick"
  shows "tick (entropy w) < tick (entropy (snd (encrypt_credential cr pw nm p w)))"
proof -
  define k where "k = fst (generate_fernet_key cr (entropy w))"
  define r0 where "r0 = snd (generate_fernet_key cr (entropy w))"
  define r1 where "r1 = snd (encrypt_if cr (p_username p) k r0)"
  define r2 where "r2 = snd (encrypt_if cr (p_password p) k r1)"
  define r3 where "r3 = snd (encrypt_if cr (p_url p) k r2)"
  define r4 where "r4 = snd (encrypt_if cr (p_recovery_key p) k r3)"
  define r5 where "r5 = snd (encrypt_if cr (p_primary_email p) k r4)"
  define r6 where "r6 = snd (encrypt_if cr (p_secondary_email p) k r5)"
  define r7 where "r7 = snd (encrypt_if cr (p_token p) k r6)"
  define r8 where "r8 = snd (encrypt_if cr (p_notes p) k r7)"
  have e: "entropy (snd (encrypt_credential cr pw nm p w)) =
      snd (encrypt cr k (derive_vault_key cr pw) r8)"
    by (simp add: encrypt_credential_def split_def Let_def k_def r0_def r1_def r2_def
          r3_def r4_def r5_def r6_def r7_def r8_def)
  have "tick (entropy w) < tick r0"
    unfolding r0_def using assms by (rule fresh_source_draw)
  then have "tick (entropy w) < tick r1"
    unfolding r1_def by (rule encrypt_if_tick [OF assms])
  then have "tick (entropy w) < tick r2"
    unfolding r2_def by (rule encrypt_if_tick [OF assms])
  then have "tick (entropy w) < tick r3"
    unfolding r3_def by (rule encrypt_if_tick [OF assms])
  then have "tick (entropy w) < tick r4"
    unfolding r4_def by (rule encrypt_if_tick [OF assms])
  then have "tick (entropy w) < tick r5"
    unfolding r5_def by (rule encrypt_if_tick [OF assms])
  then have "tick (entropy w) < tick r6"
    unfolding r6_def by (rule encrypt_if_tick [OF assms])
  then have "tick (entropy w) < tick r7"
    unfolding r7_def by (rule encrypt_if_tick [OF assms])
  then have "tick (entropy w) < tick r8"
    unfolding r8_def by (rule encrypt_if_tick [OF assms])
  then have "tick (entropy w) < tick (snd (encrypt cr k (derive_vault_key cr pw) r8))"
    by (rule encrypt_tick [OF assms])
  then show ?thesis
    by (simp only: e)
qed

lemma add_tick_mono:
  assumes "fresh_source cr tick"
  shows "tick (entropy w) \<le> tick (entropy (snd (add cr rq an w)))"
proof (cases rule: add_cases [of w an rq cr])
  case early
  then show ?thesis by simp
next
  case (reached pw w6)
  have "entropy (snd (add cr rq an w)) = entropy w6"
    unfolding reached(7) by (simp add: persist_entropy)
  with reached(8) encrypt_credential_tick [OF assms, of w pw "arg_name rq"
      "plain_values rq an (notes_value rq w)"]
  show ?thesis by simp
qed

lemma add_all_tick_mono:
  assumes "fresh_source cr tick"
  shows "tick (entropy w) \<le> tick (entropy (add_all cr runs w))"
proof (induction runs arbitrary: w)
  case Nil
  show ?case by simp
next
  case (Cons run runs)
  obtain rq an where run: "run = (rq, an)" by (cases run)
  have "tick (entropy w) \<le> tick (entropy (snd (add cr rq an w)))"
    using assms by (rule add_tick_mono)
  also have "\<dots> \<le> tick (entropy (add_all cr runs (snd (add cr rq an w))))"
    by (rule Cons.IH)
  finally show ?case by (simp add: run)
qed

lemma add_stored_tick:
  assumes "fresh_source cr tick" and "add cr rq an w = (out, w')"
    and "credentials (committed w') \<noteq> credentials (committed w)"
  shows "tick (entropy w) < tick (entropy w')"
proof (cases rule: add_cases [of w an rq cr])
  case early
  with assms(2,3) show ?thesis by simp
next
  case (reached pw w6)
  have "entropy (snd (add cr rq an w)) = entropy w6"
    unfolding reached(7) by (simp add: persist_entropy)
  with reached(8) assms(2) encrypt_credential_tick [OF assms(1), of w pw "arg_name rq"
      "plain_values rq an (notes_value rq w)"]
  show ?thesis by simp
qed

lemma drawn_key_later:
  assumes "fresh_source cr tick" and "tick (entropy w) < tick (entropy w2)"
  shows "drawn_key cr w2 \<noteq> drawn_key cr w"
proof
  assume "drawn_key cr w2 = drawn_key cr w"
  then have "tick (entropy w2) = tick (entropy w)"
    unfolding drawn_key_def by (rule fresh_source_keys [OF assms(1)])
  with assms(2) show False by simp
qed

subsection \<open>Evaluation of the concrete instance\<close>

lemmas add_defs =
  add_def print_basic_info_def assert_db_init_def check_db_init_def emit_def
  input_master_passwd_and_verify_def prompt_fields_def prompt_if_def secret_if_def
  multiline_input_def encrypt_credential_def encrypt_if_def persist_def
  existing_mnemonic_names_def session_commit_def Let_def split_def

lemmas sample_defs =
  sample_crypto_def sample_request_def sample_answers_def sample_world_def empty_vault_def
  stocked_world_def second_request_def repeated_request_def blank_request_def
  blank_answers_def blank_world_def

lemma stocked_world_eval:
  "stocked_world =
     \<lparr>database_exists = True,
      committed =
        \<lparr>credentials =
           [(0, \<lparr>name = ''Gmail'', url = None, username = None,
                 password = Some ''k:hunter2'', encrypted_key = ''vk/Secret123:k'',
                 token = None, recovery_key = None, primary_email = None,
                 secondary_email = None, notes_field = None\<rparr>)],
         mnemonics = [(''g1'', 0), (''g2'', 0)], next_id = 1\<rparr>,
      history =
        [\<lparr>credentials =
            [(0, \<lparr>name = ''Gmail'', url = None, username = None,
                  password = Some ''k:hunter2'', encrypted_key = ''vk/Secret123:k'',
                  token = None, recovery_key = None, primary_email = None,
                  secondary_email = None, notes_field = None\<rparr>)],
          mnemonics = [], next_id = 1\<rparr>,
         \<lparr>credentials =
            [(0, \<lparr>name = ''Gmail'', url = None, username = None,
                  password = Some ''k:hunter2'', encrypted_key = ''vk/Secret123:k'',
                  token = None, recovery_key = None, primary_email = None,
                  secondary_email = None, notes_field = None\<rparr>)],
          mnemonics = [(''g1'', 0), (''g2'', 0)], next_id = 1\<rparr>],
      entropy = 3, stdin = [''a'', [], ''b'', [], [], [], ''z''],
      console = [BasicInfo, RuleAddCredential, AskMasterPassword, Prompt Password,
                 AddedPanel Password, Success ''Gmail'', PrintOnScreen]\<rparr>"
  by (simp add: add_defs sample_defs)

lemma sample_run:
  "add sample_crypto sample_request sample_answers sample_world = (Returned, stocked_world)"
  by (simp add: prod_eq_iff stocked_world_def) (simp add: add_defs sample_defs)

lemma sample_fresh_source: "fresh_source sample_crypto (\<lambda>r. r)"
proof -
  have "r = r'" if "replicate (Suc r) CHR ''k'' = replicate (Suc r') CHR ''k''" for r r' :: nat
  proof -
    from that have "length (replicate (Suc r) CHR ''k'') = length (replicate (Suc r') CHR ''k'')"
      by (rule arg_cong)
    then show ?thesis by simp
  qed
  then show ?thesis
    unfolding fresh_source_def sample_crypto_def by simp
qed

section \<open>Properties of add\<close>

subsection \<open>The database file\<close>

text \<open>
  C10. When the database file does not exist, \<^verbatim>\<open>add\<close> ends with \<^verbatim>\<open>sys.exit(1)\<close>
  after the banner and the two error messages: the master password has not been asked for,
  and the world is the one before the run but for these three messages, so no row was
  written and no commit took place.
\<close>

theorem add_without_database:
  "\<not> database_exists w \<Longrightarrow>
   add cr rq an w =
     (Exited 1, w\<lparr>console := console w @ [BasicInfo, NoVaultFound, InitHint]\<rparr>)"
  by (simp add: add_def print_basic_info_def assert_db_init_def check_db_init_def emit_def)

theorem add_without_database_witness:
  "\<not> database_exists (sample_world\<lparr>database_exists := False\<rparr>) \<and>
   fst (add sample_crypto sample_request sample_answers
          (sample_world\<lparr>database_exists := False\<rparr>)) = Exited 1 \<and>
   AskMasterPassword \<notin> set (console (snd (add sample_crypto sample_request sample_answers
          (sample_world\<lparr>database_exists := False\<rparr>)))) \<and>
   committed (snd (add sample_crypto sample_request sample_answers
          (sample_world\<lparr>database_exists := False\<rparr>))) = empty_vault"
proof -
  have h: "\<not> database_exists (sample_world\<lparr>database_exists := False\<rparr>)"
    by simp
  show ?thesis
    using add_without_database [OF h, of sample_crypto sample_request sample_answers]
    by (simp add: sample_world_def)
qed

subsection \<open>Persistence of the credential and its mnemonics\<close>

text \<open>
  C1, as the code has it. The credential row and the mnemonic rows are not one unit: the
  credential row is committed first, on its own, and the mnemonic rows in a second commit.
  What holds is that the mnemonic rows of a run are committed all together or not at all,
  and that a run which returns with the vault changed has made exactly two committed
  points: the vault with the new credential row, then the vault with that row and one
  mnemonic row for every requested mnemonic, which is the final state.
\<close>

theorem add_two_commits:
  assumes "add cr rq an w = (out, w')"
  shows "(mnemonics (committed w') = mnemonics (committed w) \<or>
          mnemonics (committed w') =
            mnemonics (committed w) @ map (\<lambda>m. (m, next_id (committed w))) (arg_mnemonics rq)) \<and>
         (out = Returned \<and> committed w' \<noteq> committed w \<longrightarrow>
            (\<exists>c. history w' =
                   history w @
                   [(committed w)\<lparr>credentials := credentials (committed w) @ [(next_id (committed w), c)],
                                  next_id := next_id (committed w) + 1\<rparr>,
                    (committed w)\<lparr>credentials := credentials (committed w) @ [(next_id (committed w), c)],
                                  next_id := next_id (committed w) + 1,
                                  mnemonics := mnemonics (committed w) @
                                    map (\<lambda>m. (m, next_id (committed w))) (arg_mnemonics rq)\<rparr>] \<and>
                 committed w' = last (history w')))"
proof (cases rule: add_cases [of w an rq cr])
  case early
  with assms show ?thesis by simp
next
  case (reached pw w6)
  let ?c = "fst (encrypt_credential cr pw (arg_name rq) (plain_values rq an (notes_value rq w)) w)"
  show ?thesis
  proof (cases "find (\<lambda>m. m \<in> fst ` set (mnemonics (committed w6))) (arg_mnemonics rq)")
    case (Some m)
    then have "persist rq ?c w6 = (Returned, emit (MnemonicExists m) w6)"
      by (rule persist_existing)
    with reached assms show ?thesis by simp
  next
    case None
    note pf = persist_free [OF None, of ?c]
    show ?thesis
    proof (cases "distinct (arg_mnemonics rq)")
      case True
      with pf reached assms show ?thesis
        by (auto simp: Let_def emit_def)
    next
      case False
      with pf reached assms show ?thesis
        by (auto simp: Let_def)
    qed
  qed
qed

theorem add_two_commits_witness:
  "add sample_crypto sample_request sample_answers sample_world = (Returned, stocked_world) \<and>
   committed stocked_world \<noteq> committed sample_world \<and>
   map mnemonics (history stocked_world) = [[], [(''g1'', 0), (''g2'', 0)]] \<and>
   map (map fst) (map credentials (history stocked_world)) = [[0], [0]] \<and>
   committed stocked_world = last (history stocked_world)"
proof -
  have h: "committed stocked_world \<noteq> committed sample_world"
    by (simp add: stocked_world_eval) (simp add: sample_defs)
  from add_two_commits [OF sample_run] sample_run h show ?thesis
    by (simp add: stocked_world_eval)
qed

text \<open>
  C1 as stated fails: in the sample run the first committed point holds the credential
  row and no mnemonic row.
\<close>

theorem add_credential_committed_alone:
  "fst (add sample_crypto sample_request sample_answers sample_world) = Returned \<and>
   map fst (credentials (history (snd (add sample_crypto sample_request sample_answers
      sample_world)) ! 0)) = [0] \<and>
   mnemonics (history (snd (add sample_crypto sample_request sample_answers
      sample_world)) ! 0) = []"
  by (simp add: add_defs sample_defs)

text \<open>
  When the command line repeats a mnemonic, the second commit is refused and the
  credential row of the first commit stays behind without any mnemonic row.
\<close>

lemma add_repeated_mnemonic_leaves_credential:
  "fst (add sample_crypto repeated_request sample_answers sample_world) =
     Raised IntegrityError \<and>
   map fst (credentials (committed (snd (add sample_crypto repeated_request sample_answers
      sample_world)))) = [0] \<and>
   mnemonics (committed (snd (add sample_crypto repeated_request sample_answers
      sample_world))) = []"
  by (simp add: add_defs sample_defs)

subsection \<open>Uniqueness of aliases\<close>

lemma insert_row_unique:
  "insert_row r v = Some v' \<Longrightarrow> unique_aliases v \<Longrightarrow> unique_aliases v'"
  by (cases r) (auto simp: unique_aliases_def split: if_splits)

lemma flush_unique:
  "flush rs v = Some v' \<Longrightarrow> unique_aliases v \<Longrightarrow> unique_aliases v'"
proof (induction rs arbitrary: v)
  case Nil
  then show ?case by simp
next
  case (Cons r rs)
  then show ?case
    by (auto split: option.splits dest: insert_row_unique)
qed

lemma session_commit_unique:
  assumes "unique_aliases (committed w)" and "\<forall>v \<in> set (history w). unique_aliases v"
  shows "unique_aliases (committed (snd (session_commit rs w)))"
    and "\<forall>v \<in> set (history (snd (session_commit rs w))). unique_aliases v"
  using assms
  by (auto simp: session_commit_def split: option.splits dest: flush_unique)

lemma persist_unique:
  assumes "unique_aliases (committed w)" and "\<forall>v \<in> set (history w). unique_aliases v"
  shows "unique_aliases (committed (snd (persist rq c w))) \<and>
         (\<forall>v \<in> set (history (snd (persist rq c w))). unique_aliases v)"
proof -
  let ?w1 = "snd (session_commit [CredentialRow c] w)"
  let ?rs = "map (\<lambda>m. MnemonicRow m (next_id (committed w))) (arg_mnemonics rq)"
  have 1: "unique_aliases (committed ?w1)" "\<forall>v \<in> set (history ?w1). unique_aliases v"
    using assms by (rule session_commit_unique)+
  have 2: "unique_aliases (committed (snd (session_commit ?rs ?w1)))"
    "\<forall>v \<in> set (history (snd (session_commit ?rs ?w1))). unique_aliases v"
    using 1 by (rule session_commit_unique)+
  show ?thesis
    using assms 1 2
    by (simp add: persist_def Let_def split_def split: option.splits sum.splits)
qed

lemma add_unique:
  assumes "unique_aliases (committed w)" and "\<forall>v \<in> set (history w). unique_aliases v"
  shows "unique_aliases (committed (snd (add cr rq an w))) \<and>
         (\<forall>v \<in> set (history (snd (add cr rq an w))). unique_aliases v)"
proof (cases rule: add_cases [of w an rq cr])
  case early
  with assms show ?thesis by simp
next
  case (reached pw w6)
  from assms reached(4,5) have "unique_aliases (committed w6)"
    and "\<forall>v \<in> set (history w6). unique_aliases v"
    by simp_all
  then show ?thesis
    unfolding reached(7) by (rule persist_unique)
qed

text \<open>
  C2. Starting from a vault whose committed points have pairwise different aliases, after
  any sequence of runs of \<^verbatim>\<open>add\<close> the vault and every committed point on the way have
  pairwise different aliases, whatever the command lines are, also when one of them
  repeats a mnemonic.
\<close>

theorem add_all_unique_aliases:
  assumes "unique_aliases (committed w)" and "\<forall>v \<in> set (history w). unique_aliases v"
  shows "unique_aliases (committed (add_all cr runs w)) \<and>
         (\<forall>v \<in> set (history (add_all cr runs w)). unique_aliases v)"
  using assms
proof (induction runs arbitrary: w)
  case Nil
  then show ?case by simp
next
  case (Cons run runs)
  obtain rq an where run: "run = (rq, an)" by (cases run)
  from add_unique [OF Cons.prems, of cr rq an]
  have "unique_aliases (committed (snd (add cr rq an w)))"
    and "\<forall>v \<in> set (history (snd (add cr rq an w))). unique_aliases v"
    by simp_all
  then show ?case
    unfolding run add_all.simps by (rule Cons.IH)
qed

theorem add_all_unique_aliases_witness:
  "unique_aliases (committed sample_world) \<and>
   history sample_world = [] \<and>
   unique_aliases (committed (add_all sample_crypto
      [(repeated_request, sample_answers), (sample_request, sample_answers),
       (second_request, sample_answers)] sample_world)) \<and>
   list_all unique_aliases (history (add_all sample_crypto
      [(repeated_request, sample_answers), (sample_request, sample_answers),
       (second_request, sample_answers)] sample_world))"
proof -
  have a: "unique_aliases (committed sample_world)"
    by (simp add: sample_defs unique_aliases_def)
  have b: "history sample_world = []"
    by (simp add: sample_defs)
  then have b': "\<forall>v \<in> set (history sample_world). unique_aliases v"
    by simp
  from add_all_unique_aliases [OF a b', of sample_crypto
      "[(repeated_request, sample_answers), (sample_request, sample_answers),
       (second_request, sample_answers)]"] a b
  show ?thesis by (simp add: list_all_iff)
qed

subsection \<open>A requested alias that exists\<close>

text \<open>
  C3. When one of the requested mnemonics is the alias of a stored mnemonic row, the run
  commits nothing: the committed vault (its credential rows, its mnemonic rows) is the one
  before the run, and there is no new committed point.
\<close>

theorem add_existing_alias_leaves_vault:
  assumes "\<exists>m \<in> set (arg_mnemonics rq). m \<in> fst ` set (mnemonics (committed w))"
  shows "committed (snd (add cr rq an w)) = committed w \<and>
         history (snd (add cr rq an w)) = history w"
proof (cases rule: add_cases [of w an rq cr])
  case early
  then show ?thesis by simp
next
  case (reached pw w6)
  from assms reached(4) 
  obtain m where "find (\<lambda>m. m \<in> fst ` set (mnemonics (committed w6))) (arg_mnemonics rq) = Some m"
    by (cases "find (\<lambda>m. m \<in> fst ` set (mnemonics (committed w6))) (arg_mnemonics rq)")
       (auto simp: find_None_iff)
  then have "persist rq (fst (encrypt_credential cr pw (arg_name rq)
                            (plain_values rq an (notes_value rq w)) w)) w6 =
             (Returned, emit (MnemonicExists m) w6)"
    by (rule persist_existing)
  with reached show ?thesis by simp
qed

theorem add_existing_alias_leaves_vault_witness:
  "''g1'' \<in> set (arg_mnemonics second_request) \<and>
   ''g1'' \<in> fst ` set (mnemonics (committed stocked_world)) \<and>
   committed (snd (add sample_crypto second_request sample_answers stocked_world)) =
     committed stocked_world \<and>
   history (snd (add sample_crypto second_request sample_answers stocked_world)) =
     history stocked_world"
proof -
  have a: "''g1'' \<in> set (arg_mnemonics second_request)"
    by (simp add: sample_defs)
  have b: "''g1'' \<in> fst ` set (mnemonics (committed stocked_world))"
    by (simp add: stocked_world_eval)
  from a b have h: "\<exists>m \<in> set (arg_mnemonics second_request).
      m \<in> fst ` set (mnemonics (committed stocked_world))"
    by (rule bexI [rotated])
  from a b add_existing_alias_leaves_vault [OF h, of sample_crypto sample_answers]
  show ?thesis by simp
qed

text \<open>
  C4, as the code has it. When the run reaches the check and \<open>m\<close> is the first of the
  requested mnemonics, in the order of the command line, that is the alias of a stored
  row, the command returns normally, and the only note it prints names \<open>m\<close>.
\<close>

theorem add_existing_alias_note:
  assumes "database_exists w" and "master_passwd_ans an = Inr pw"
    and "arg_notes rq \<longrightarrow> (\<exists>t. fst (multiline_input w) = Inr t)"
    and "find (\<lambda>m. m \<in> fst ` set (mnemonics (committed w))) (arg_mnemonics rq) = Some m"
  shows "fst (add cr rq an w) = Returned \<and>
         named_mnemonics (console (snd (add cr rq an w))) = named_mnemonics (console w) @ [m]"
proof (cases rule: add_cases [of w an rq cr])
  case early
  with assms(1-3) show ?thesis by auto
next
  case (reached pw' w6)
  from assms(4) reached(4)
  have "find (\<lambda>m. m \<in> fst ` set (mnemonics (committed w6))) (arg_mnemonics rq) = Some m"
    by simp
  then have "persist rq (fst (encrypt_credential cr pw' (arg_name rq)
                            (plain_values rq an (notes_value rq w)) w)) w6 =
             (Returned, emit (MnemonicExists m) w6)"
    by (rule persist_existing)
  with reached show ?thesis by simp
qed

theorem add_existing_alias_note_witness:
  "database_exists stocked_world \<and>
   master_passwd_ans sample_answers = Inr ''Secret123'' \<and>
   \<not> arg_notes second_request \<and>
   find (\<lambda>m. m \<in> fst ` set (mnemonics (committed stocked_world)))
     (arg_mnemonics second_request) = Some ''g2'' \<and>
   fst (add sample_crypto second_request sample_answers stocked_world) = Returned \<and>
   named_mnemonics (console (snd (add sample_crypto second_request sample_answers
      stocked_world))) = [''g2'']"
proof -
  have a: "database_exists stocked_world"
    by (simp add: stocked_world_eval)
  have b: "master_passwd_ans sample_answers = Inr ''Secret123''"
    by (simp add: sample_defs)
  have c: "\<not> arg_notes second_request"
    by (simp add: sample_defs)
  then have c': "arg_notes second_request \<longrightarrow>
      (\<exists>t. fst (multiline_input stocked_world) = Inr t)"
    by simp
  have d: "find (\<lambda>m. m \<in> fst ` set (mnemonics (committed stocked_world)))
     (arg_mnemonics second_request) = Some ''g2''"
    by (simp add: stocked_world_eval) (simp add: sample_defs)
  have e: "named_mnemonics (console stocked_world) = []"
    by (simp add: stocked_world_eval)
  from add_existing_alias_note [OF a b c' d, of sample_crypto] a b c d e
  show ?thesis by simp
qed

text \<open>
  C4 as stated fails: asking again for \<open>g2\<close> and \<open>g1\<close>, both stored, the command
  returns normally instead of raising, and its note names \<open>g2\<close> alone.
\<close>

theorem add_existing_alias_returns_normally:
  "fst (add sample_crypto second_request sample_answers stocked_world) = Returned \<and>
   named_mnemonics (console (snd (add sample_crypto second_request sample_answers
      stocked_world))) = [''g2''] \<and>
   ''g1'' \<in> set (arg_mnemonics second_request) \<and>
   ''g1'' \<in> fst ` set (mnemonics (committed stocked_world))"
  by (simp add: stocked_world_eval) (simp add: add_defs sample_defs)

subsection \<open>The stored credential\<close>

text \<open>
  The stored row, column by column.
\<close>

lemma add_sealed_fields:
  fixes cr :: "'r crypto" and w w' :: "'r world"
  assumes "add cr rq an w = (out, w')"
    and "credentials (committed w') \<noteq> credentials (committed w)"
  obtains pw c where
    "master_passwd_ans an = Inr pw"
    "credentials (committed w') =
             credentials (committed w) @ [(next_id (committed w), c)]"
    "\<exists>r. encrypted_key c =
                  fst (encrypt cr (drawn_key cr w) (derive_vault_key cr pw) r)"
    "arg_username rq \<and> username_ans an \<noteq> [] \<longrightarrow>
              (\<exists>r. username c = Some (fst (encrypt cr (username_ans an) (drawn_key cr w) r)))"
    "arg_password rq \<and> password_ans an \<noteq> [] \<longrightarrow>
              (\<exists>r. password c = Some (fst (encrypt cr (password_ans an) (drawn_key cr w) r)))"
    "arg_url rq \<and> url_ans an \<noteq> [] \<longrightarrow>
              (\<exists>r. url c = Some (fst (encrypt cr (url_ans an) (drawn_key cr w) r)))"
    "arg_primary_email rq \<and> primary_email_ans an \<noteq> [] \<longrightarrow>
              (\<exists>r. primary_email c =
                     Some (fst (encrypt cr (primary_email_ans an) (drawn_key cr w) r)))"
    "arg_secondary_email rq \<and> secondary_email_ans an \<noteq> [] \<longrightarrow>
              (\<exists>r. secondary_email c =
                     Some (fst (encrypt cr (secondary_email_ans an) (drawn_key cr w) r)))"
    "arg_token rq \<and> token_ans an \<noteq> [] \<longrightarrow>
              (\<exists>r. token c = Some (fst (encrypt cr (token_ans an) (drawn_key cr w) r)))"
    "arg_recovery_key rq \<and> recovery_key_ans an \<noteq> [] \<longrightarrow>
              (\<exists>r. recovery_key c =
                     Some (fst (encrypt cr (recovery_key_ans an) (drawn_key cr w) r)))"
    "\<forall>t. arg_notes rq \<and> fst (multiline_input w) = Inr t \<and> t \<noteq> [] \<longrightarrow>
              (\<exists>r. notes_field c = Some (fst (encrypt cr t (drawn_key cr w) r)))"
proof -
  from assms obtain pw where pw: "master_passwd_ans an = Inr pw" and
    st: "credentials (committed w') =
           credentials (committed w) @
           [(next_id (committed w),
             fst (encrypt_credential cr pw (arg_name rq)
                    (plain_values rq an (notes_value rq w)) w))]"
    by (rule add_stored)
  let ?c = "fst (encrypt_credential cr pw (arg_name rq) (plain_values rq an (notes_value rq w)) w)"
  note f = encrypt_credential_fields [of cr pw "arg_name rq" "plain_values rq an (notes_value rq w)" w,
      folded drawn_key_def]
  have k: "\<exists>r. encrypted_key ?c = fst (encrypt cr (drawn_key cr w) (derive_vault_key cr pw) r)"
    by (rule f(2))
  have 1: "arg_username rq \<and> username_ans an \<noteq> [] \<longrightarrow>
      (\<exists>r. username ?c = Some (fst (encrypt cr (username_ans an) (drawn_key cr w) r)))"
    using f(3) by (auto simp: encrypt_if_present)
  have 2: "arg_password rq \<and> password_ans an \<noteq> [] \<longrightarrow>
      (\<exists>r. password ?c = Some (fst (encrypt cr (password_ans an) (drawn_key cr w) r)))"
    using f(4) by (auto simp: encrypt_if_present)
  have 3: "arg_url rq \<and> url_ans an \<noteq> [] \<longrightarrow>
      (\<exists>r. url ?c = Some (fst (encrypt cr (url_ans an) (drawn_key cr w) r)))"
    using f(5) by (auto simp: encrypt_if_present)
  have 4: "arg_primary_email rq \<and> primary_email_ans an \<noteq> [] \<longrightarrow>
      (\<exists>r. primary_email ?c = Some (fst (encrypt cr (primary_email_ans an) (drawn_key cr w) r)))"
    using f(7) by (auto simp: encrypt_if_present)
  have 5: "arg_secondary_email rq \<and> secondary_email_ans an \<noteq> [] \<longrightarrow>
      (\<exists>r. secondary_email ?c = Some (fst (encrypt cr (secondary_email_ans an) (drawn_key cr w) r)))"
    using f(8) by (auto simp: encrypt_if_present)
  have 6: "arg_token rq \<and> token_ans an \<noteq> [] \<longrightarrow>
      (\<exists>r. token ?c = Some (fst (encrypt cr (token_ans an) (drawn_key cr w) r)))"
    using f(9) by (auto simp: encrypt_if_present)
  have 7: "arg_recovery_key rq \<and> recovery_key_ans an \<noteq> [] \<longrightarrow>
      (\<exists>r. recovery_key ?c = Some (fst (encrypt cr (recovery_key_ans an) (drawn_key cr w) r)))"
    using f(6) by (auto simp: encrypt_if_present)
  have 8: "\<forall>t. arg_notes rq \<and> fst (multiline_input w) = Inr t \<and> t \<noteq> [] \<longrightarrow>
      (\<exists>r. notes_field ?c = Some (fst (encrypt cr t (drawn_key cr w) r)))"
    using f(10) by (auto simp: encrypt_if_present notes_value_def)
  show thesis
    by (rule that [OF pw st k 1 2 3 4 5 6 7 8])
qed

text \<open>
  C5. The credential row that a run stores is built from the key that the key generator
  returns in this run, drawn from the random source alone: the stored \<open>encrypted_key\<close>
  is the cipher's result on that key under the vault key derived from the master
  password, and every field whose flag was given and whose prompt returned a non-empty
  text holds the cipher's result on that text under the drawn key. The run uses the draw
  up: it leaves the random source strictly ahead, so with a random source that serves
  fresh keys no later draw returns this key again, and the credential that any later run
  of \<^verbatim>\<open>add\<close> stores, after any number of runs in between, is sealed from a different
  key.
\<close>

theorem add_envelope:
  fixes cr :: "'r crypto" and w w' :: "'r world" and tick :: "'r \<Rightarrow> nat"
  assumes "add cr rq an w = (out, w')"
    and "credentials (committed w') \<noteq> credentials (committed w)"
  shows "\<exists>pw c. master_passwd_ans an = Inr pw \<and>
           credentials (committed w') =
             credentials (committed w) @ [(next_id (committed w), c)] \<and>
           (\<exists>r. encrypted_key c =
                  fst (encrypt cr (drawn_key cr w) (derive_vault_key cr pw) r)) \<and>
           (arg_username rq \<and> username_ans an \<noteq> [] \<longrightarrow>
              (\<exists>r. username c = Some (fst (encrypt cr (username_ans an) (drawn_key cr w) r)))) \<and>
           (arg_password rq \<and> password_ans an \<noteq> [] \<longrightarrow>
              (\<exists>r. password c = Some (fst (encrypt cr (password_ans an) (drawn_key cr w) r)))) \<and>
           (arg_url rq \<and> url_ans an \<noteq> [] \<longrightarrow>
              (\<exists>r. url c = Some (fst (encrypt cr (url_ans an) (drawn_key cr w) r)))) \<and>
           (arg_primary_email rq \<and> primary_email_ans an \<noteq> [] \<longrightarrow>
              (\<exists>r. primary_email c =
                     Some (fst (encrypt cr (primary_email_ans an) (drawn_key cr w) r)))) \<and>
           (arg_secondary_email rq \<and> secondary_email_ans an \<noteq> [] \<longrightarrow>
              (\<exists>r. secondary_email c =
                     Some (fst (encrypt cr (secondary_email_ans an) (drawn_key cr w) r)))) \<and>
           (arg_token rq \<and> token_ans an \<noteq> [] \<longrightarrow>
              (\<exists>r. token c = Some (fst (encrypt cr (token_ans an) (drawn_key cr w) r)))) \<and>
           (arg_recovery_key rq \<and> recovery_key_ans an \<noteq> [] \<longrightarrow>
              (\<exists>r. recovery_key c =
                     Some (fst (encrypt cr (recovery_key_ans an) (drawn_key cr w) r)))) \<and>
           (\<forall>t. arg_notes rq \<and> fst (multiline_input w) = Inr t \<and> t \<noteq> [] \<longrightarrow>
              (\<exists>r. notes_field c = Some (fst (encrypt cr t (drawn_key cr w) r)))) \<and>
           (fresh_source cr tick \<longrightarrow>
              tick (entropy w) < tick (entropy w') \<and>
              (\<forall>w2. tick (entropy w') \<le> tick (entropy w2) \<longrightarrow>
                 drawn_key cr w2 \<noteq> drawn_key cr w) \<and>
              (\<forall>runs rq2 an2.
                 credentials (committed (snd (add cr rq2 an2 (add_all cr runs w')))) \<noteq>
                 credentials (committed (add_all cr runs w')) \<longrightarrow>
                 (\<exists>pw2 c2 r.
                    master_passwd_ans an2 = Inr pw2 \<and>
                    credentials (committed (snd (add cr rq2 an2 (add_all cr runs w')))) =
                      credentials (committed (add_all cr runs w')) @
                      [(next_id (committed (add_all cr runs w')), c2)] \<and>
                    encrypted_key c2 =
                      fst (encrypt cr (drawn_key cr (add_all cr runs w'))
                             (derive_vault_key cr pw2) r) \<and>
                    drawn_key cr (add_all cr runs w') \<noteq> drawn_key cr w)))"
proof -
  let ?fresh = "tick (entropy w) < tick (entropy w') \<and>
              (\<forall>w2. tick (entropy w') \<le> tick (entropy w2) \<longrightarrow>
                 drawn_key cr w2 \<noteq> drawn_key cr w) \<and>
              (\<forall>runs rq2 an2.
                 credentials (committed (snd (add cr rq2 an2 (add_all cr runs w')))) \<noteq>
                 credentials (committed (add_all cr runs w')) \<longrightarrow>
                 (\<exists>pw2 c2 r.
                    master_passwd_ans an2 = Inr pw2 \<and>
                    credentials (committed (snd (add cr rq2 an2 (add_all cr runs w')))) =
                      credentials (committed (add_all cr runs w')) @
                      [(next_id (committed (add_all cr runs w')), c2)] \<and>
                    encrypted_key c2 =
                      fst (encrypt cr (drawn_key cr (add_all cr runs w'))
                             (derive_vault_key cr pw2) r) \<and>
                    drawn_key cr (add_all cr runs w') \<noteq> drawn_key cr w))"
  have fresh: ?fresh if fs: "fresh_source cr tick"
  proof (intro conjI allI impI)
    show adv: "tick (entropy w) < tick (entropy w')"
      using fs assms by (rule add_stored_tick)
    show "drawn_key cr w2 \<noteq> drawn_key cr w" if "tick (entropy w') \<le> tick (entropy w2)" for w2
    proof (rule drawn_key_later [OF fs])
      from adv that show "tick (entropy w) < tick (entropy w2)" by simp
    qed
    fix runs rq2 an2
    let ?w2 = "add_all cr runs w'"
    assume ch: "credentials (committed (snd (add cr rq2 an2 ?w2))) \<noteq> credentials (committed ?w2)"
    have run2: "add cr rq2 an2 ?w2 = (fst (add cr rq2 an2 ?w2), snd (add cr rq2 an2 ?w2))"
      by simp
    from run2 ch obtain pw2 c2 where
      a: "master_passwd_ans an2 = Inr pw2" and
      b: "credentials (committed (snd (add cr rq2 an2 ?w2))) =
         credentials (committed ?w2) @ [(next_id (committed ?w2), c2)]" and
      c: "\<exists>r. encrypted_key c2 = fst (encrypt cr (drawn_key cr ?w2) (derive_vault_key cr pw2) r)"
      by (rule add_sealed_fields)
    from c obtain r where
      c': "encrypted_key c2 = fst (encrypt cr (drawn_key cr ?w2) (derive_vault_key cr pw2) r)" ..
    have d: "drawn_key cr ?w2 \<noteq> drawn_key cr w"
    proof (rule drawn_key_later [OF fs])
      have "tick (entropy w') \<le> tick (entropy ?w2)"
        using fs by (rule add_all_tick_mono)
      with adv show "tick (entropy w) < tick (entropy ?w2)" by simp
    qed
    show "\<exists>pw2 c2 r.
                    master_passwd_ans an2 = Inr pw2 \<and>
                    credentials (committed (snd (add cr rq2 an2 ?w2))) =
                      credentials (committed ?w2) @ [(next_id (committed ?w2), c2)] \<and>
                    encrypted_key c2 =
                      fst (encrypt cr (drawn_key cr ?w2) (derive_vault_key cr pw2) r) \<and>
                    drawn_key cr ?w2 \<noteq> drawn_key cr w"
      by (intro exI [of _ pw2] exI [of _ c2] exI [of _ r] conjI a b c' d)
  qed
  have last: "fresh_source cr tick \<longrightarrow> ?fresh"
    by (rule impI) (rule fresh)
  from assms obtain pw c where o:
    "master_passwd_ans an = Inr pw"
    "credentials (committed w') = credentials (committed w) @ [(next_id (committed w), c)]"
    "\<exists>r. encrypted_key c = fst (encrypt cr (drawn_key cr w) (derive_vault_key cr pw) r)"
    "arg_username rq \<and> username_ans an \<noteq> [] \<longrightarrow>
       (\<exists>r. username c = Some (fst (encrypt cr (username_ans an) (drawn_key cr w) r)))"
    "arg_password rq \<and> password_ans an \<noteq> [] \<longrightarrow>
       (\<exists>r. password c = Some (fst (encrypt cr (password_ans an) (drawn_key cr w) r)))"
    "arg_url rq \<and> url_ans an \<noteq> [] \<longrightarrow>
       (\<exists>r. url c = Some (fst (encrypt cr (url_ans an) (drawn_key cr w) r)))"
    "arg_primary_email rq \<and> primary_email_ans an \<noteq> [] \<longrightarrow>
       (\<exists>r. primary_email c =
              Some (fst (encrypt cr (primary_email_ans an) (drawn_key cr w) r)))"
    "arg_secondary_email rq \<and> secondary_email_ans an \<noteq> [] \<longrightarrow>
       (\<exists>r. secondary_email c =
              Some (fst (encrypt cr (secondary_email_ans an) (drawn_key cr w) r)))"
    "arg_token rq \<and> token_ans an \<noteq> [] \<longrightarrow>
       (\<exists>r. token c = Some (fst (encrypt cr (token_ans an) (drawn_key cr w) r)))"
    "arg_recovery_key rq \<and> recovery_key_ans an \<noteq> [] \<longrightarrow>
       (\<exists>r. recovery_key c =
              Some (fst (encrypt cr (recovery_key_ans an) (drawn_key cr w) r)))"
    "\<forall>t. arg_notes rq \<and> fst (multiline_input w) = Inr t \<and> t \<noteq> [] \<longrightarrow>
       (\<exists>r. notes_field c = Some (fst (encrypt cr t (drawn_key cr w) r)))"
    by (rule add_sealed_fields)
  show ?thesis
    by (intro exI [of _ pw] exI [of _ c] conjI o last)
qed

theorem add_envelope_witness:
  "fresh_source sample_crypto (\<lambda>r. r) \<and>
   credentials (committed stocked_world) \<noteq> credentials (committed sample_world) \<and>
   entropy sample_world < entropy stocked_world \<and>
   drawn_key sample_crypto sample_world = ''k'' \<and>
   drawn_key sample_crypto stocked_world = ''kkkk'' \<and>
   drawn_key sample_crypto stocked_world \<noteq> drawn_key sample_crypto sample_world \<and>
   encrypted_key (snd (last (credentials (committed stocked_world)))) =
     fst (encrypt sample_crypto ''k'' (derive_vault_key sample_crypto ''Secret123'') 2) \<and>
   password (snd (last (credentials (committed stocked_world)))) =
     Some (fst (encrypt sample_crypto ''hunter2'' ''k'' 1)) \<and>
   encrypted_key (snd (last (credentials (committed (snd (add sample_crypto third_request
      sample_answers stocked_world)))))) =
     fst (encrypt sample_crypto ''kkkk'' (derive_vault_key sample_crypto ''Secret123'') 5)"
proof -
  have h: "credentials (committed stocked_world) \<noteq> credentials (committed sample_world)"
    by (simp add: stocked_world_eval) (simp add: sample_defs)
  have f: "fresh_source sample_crypto (\<lambda>r. r) \<longrightarrow>
      entropy sample_world < entropy stocked_world \<and>
      (\<forall>w2. entropy stocked_world \<le> entropy w2 \<longrightarrow>
         drawn_key sample_crypto w2 \<noteq> drawn_key sample_crypto sample_world) \<and>
      (\<forall>runs rq2 an2.
         credentials (committed (snd (add sample_crypto rq2 an2
            (add_all sample_crypto runs stocked_world)))) \<noteq>
         credentials (committed (add_all sample_crypto runs stocked_world)) \<longrightarrow>
         (\<exists>pw2 c2 r.
            master_passwd_ans an2 = Inr pw2 \<and>
            credentials (committed (snd (add sample_crypto rq2 an2
               (add_all sample_crypto runs stocked_world)))) =
              credentials (committed (add_all sample_crypto runs stocked_world)) @
              [(next_id (committed (add_all sample_crypto runs stocked_world)), c2)] \<and>
            encrypted_key c2 =
              fst (encrypt sample_crypto (drawn_key sample_crypto
                     (add_all sample_crypto runs stocked_world))
                     (derive_vault_key sample_crypto pw2) r) \<and>
            drawn_key sample_crypto (add_all sample_crypto runs stocked_world) \<noteq>
              drawn_key sample_crypto sample_world))"
    using add_envelope [OF sample_run h, of "\<lambda>r. r"]
    by (elim exE conjE)
  from f sample_fresh_source
  have a: "entropy sample_world < entropy stocked_world"
    and b: "\<forall>w2. entropy stocked_world \<le> entropy w2 \<longrightarrow>
         drawn_key sample_crypto w2 \<noteq> drawn_key sample_crypto sample_world"
    by blast+
  from b have c: "drawn_key sample_crypto stocked_world \<noteq> drawn_key sample_crypto sample_world"
    by simp
  have e: "drawn_key sample_crypto sample_world = ''k'' \<and>
   drawn_key sample_crypto stocked_world = ''kkkk'' \<and>
   encrypted_key (snd (last (credentials (committed stocked_world)))) =
     fst (encrypt sample_crypto ''k'' (derive_vault_key sample_crypto ''Secret123'') 2) \<and>
   password (snd (last (credentials (committed stocked_world)))) =
     Some (fst (encrypt sample_crypto ''hunter2'' ''k'' 1)) \<and>
   encrypted_key (snd (last (credentials (committed (snd (add sample_crypto third_request
      sample_answers stocked_world)))))) =
     fst (encrypt sample_crypto ''kkkk'' (derive_vault_key sample_crypto ''Secret123'') 5)"
    by (simp add: stocked_world_eval drawn_key_def)
       (simp add: add_defs sample_defs third_request_def eval_nat_numeral)
  from sample_fresh_source h a c e show ?thesis
    by (intro conjI) simp_all
qed

text \<open>
  C6. In the credential row that a run stores, every field whose flag was not given is
  \<open>None\<close>.
\<close>

theorem add_absent_fields:
  assumes "add cr rq an w = (out, w')"
    and "credentials (committed w') \<noteq> credentials (committed w)"
  shows "\<exists>c. credentials (committed w') =
               credentials (committed w) @ [(next_id (committed w), c)] \<and>
             (\<not> arg_username rq \<longrightarrow> username c = None) \<and>
             (\<not> arg_password rq \<longrightarrow> password c = None) \<and>
             (\<not> arg_url rq \<longrightarrow> url c = None) \<and>
             (\<not> arg_primary_email rq \<longrightarrow> primary_email c = None) \<and>
             (\<not> arg_secondary_email rq \<longrightarrow> secondary_email c = None) \<and>
             (\<not> arg_token rq \<longrightarrow> token c = None) \<and>
             (\<not> arg_recovery_key rq \<longrightarrow> recovery_key c = None) \<and>
             (\<not> arg_notes rq \<longrightarrow> notes_field c = None)"
proof -
  from assms obtain pw where
    st: "credentials (committed w') =
           credentials (committed w) @
           [(next_id (committed w),
             fst (encrypt_credential cr pw (arg_name rq)
                    (plain_values rq an (notes_value rq w)) w))]"
    by (rule add_stored)
  note f = encrypt_credential_fields [of cr pw "arg_name rq" "plain_values rq an (notes_value rq w)" w]
  have f1: "\<not> arg_username rq \<longrightarrow> username (fst (encrypt_credential cr pw (arg_name rq)
                    (plain_values rq an (notes_value rq w)) w)) = None"
    using f(3) by auto
  have f2: "\<not> arg_password rq \<longrightarrow> password (fst (encrypt_credential cr pw (arg_name rq)
                    (plain_values rq an (notes_value rq w)) w)) = None"
    using f(4) by auto
  have f3: "\<not> arg_url rq \<longrightarrow> url (fst (encrypt_credential cr pw (arg_name rq)
                    (plain_values rq an (notes_value rq w)) w)) = None"
    using f(5) by auto
  have f4: "\<not> arg_primary_email rq \<longrightarrow> primary_email (fst (encrypt_credential cr pw (arg_name rq)
                    (plain_values rq an (notes_value rq w)) w)) = None"
    using f(7) by auto
  have f5: "\<not> arg_secondary_email rq \<longrightarrow> secondary_email (fst (encrypt_credential cr pw (arg_name rq)
                    (plain_values rq an (notes_value rq w)) w)) = None"
    using f(8) by auto
  have f6: "\<not> arg_token rq \<longrightarrow> token (fst (encrypt_credential cr pw (arg_name rq)
                    (plain_values rq an (notes_value rq w)) w)) = None"
    using f(9) by auto
  have f7: "\<not> arg_recovery_key rq \<longrightarrow> recovery_key (fst (encrypt_credential cr pw (arg_name rq)
                    (plain_values rq an (notes_value rq w)) w)) = None"
    using f(6) by auto
  have f8: "\<not> arg_notes rq \<longrightarrow> notes_field (fst (encrypt_credential cr pw (arg_name rq)
                    (plain_values rq an (notes_value rq w)) w)) = None"
    using f(10) by (auto simp: notes_value_def)
  show ?thesis
    by (intro exI [of _ "fst (encrypt_credential cr pw (arg_name rq)
          (plain_values rq an (notes_value rq w)) w)"] conjI st f1 f2 f3 f4 f5 f6 f7 f8)
qed

theorem add_absent_fields_witness:
  "credentials (committed stocked_world) \<noteq> credentials (committed sample_world) \<and>
   \<not> arg_username sample_request \<and> \<not> arg_notes sample_request \<and>
   username (snd (last (credentials (committed stocked_world)))) = None \<and>
   notes_field (snd (last (credentials (committed stocked_world)))) = None \<and>
   password (snd (last (credentials (committed stocked_world)))) = Some ''k:hunter2''"
proof -
  have h: "credentials (committed stocked_world) \<noteq> credentials (committed sample_world)"
    by (simp add: stocked_world_eval) (simp add: sample_defs)
  from add_absent_fields [OF sample_run h] h show ?thesis
    by (simp add: stocked_world_eval) (simp add: sample_defs)
qed

lemma drop_empty_sel [simp]:
  "arg_name (drop_empty rq an w) = arg_name rq"
  "arg_mnemonics (drop_empty rq an w) = arg_mnemonics rq"
  "arg_username (drop_empty rq an w) = (arg_username rq \<and> username_ans an \<noteq> [])"
  "arg_password (drop_empty rq an w) = (arg_password rq \<and> password_ans an \<noteq> [])"
  "arg_url (drop_empty rq an w) = (arg_url rq \<and> url_ans an \<noteq> [])"
  "arg_primary_email (drop_empty rq an w) = (arg_primary_email rq \<and> primary_email_ans an \<noteq> [])"
  "arg_secondary_email (drop_empty rq an w) =
     (arg_secondary_email rq \<and> secondary_email_ans an \<noteq> [])"
  "arg_token (drop_empty rq an w) = (arg_token rq \<and> token_ans an \<noteq> [])"
  "arg_recovery_key (drop_empty rq an w) = (arg_recovery_key rq \<and> recovery_key_ans an \<noteq> [])"
  "arg_notes (drop_empty rq an w) = (arg_notes rq \<and> fst (multiline_input w) \<noteq> Inr [])"
  by (simp_all add: drop_empty_def)

lemma encrypt_if_drop_empty:
  "encrypt_if cr (if b \<and> s \<noteq> [] then Some s else None) k r =
   encrypt_if cr (if b then Some s else None) k r"
  by simp

lemma encrypt_if_notes_drop_empty:
  "encrypt_if cr (notes_value (drop_empty rq an w) w) k r =
   encrypt_if cr (notes_value rq w) k r"
  by (cases "fst (multiline_input w)") (auto simp: notes_value_def)

lemma encrypt_credential_drop_empty:
  "fst (encrypt_credential cr pw nm
          (plain_values (drop_empty rq an w) an (notes_value (drop_empty rq an w) w)) w') =
   fst (encrypt_credential cr pw nm (plain_values rq an (notes_value rq w)) w')"
  by (simp add: encrypt_credential_def split_def Let_def encrypt_if_drop_empty
        encrypt_if_notes_drop_empty split del: if_split cong: if_cong)

lemma add_drop_empty:
  "committed (snd (add cr (drop_empty rq an w) an w)) = committed (snd (add cr rq an w))"
  "history (snd (add cr (drop_empty rq an w) an w)) = history (snd (add cr rq an w))"
proof -
  have "committed (snd (add cr (drop_empty rq an w) an w)) = committed (snd (add cr rq an w)) \<and>
        history (snd (add cr (drop_empty rq an w) an w)) = history (snd (add cr rq an w))"
  proof (cases rule: add_cases [of w an rq cr])
    case early
    then have "\<not> database_exists w \<or> (\<exists>out. master_passwd_ans an = Inl out) \<or>
             (arg_notes (drop_empty rq an w) \<and> (\<exists>e. fst (multiline_input w) = Inl e))"
      by auto
    with early(2,3) show ?thesis
      by (cases rule: add_cases [of w an "drop_empty rq an w" cr]) auto
  next
    case r1: (reached pw w6)
    show ?thesis
    proof (cases rule: add_cases [of w an "drop_empty rq an w" cr])
      case early
      with r1(1-3) show ?thesis by auto
    next
      case r2: (reached pw' w6')
      from r1(2) r2(2) have "pw' = pw" by simp
      then show ?thesis
        unfolding r1(7) r2(7) encrypt_credential_drop_empty
        using persist_vault_cong [of w6' w6 "drop_empty rq an w" rq] r1(4,5) r2(4,5)
        by simp
    qed
  qed
  then show "committed (snd (add cr (drop_empty rq an w) an w)) = committed (snd (add cr rq an w))"
    and "history (snd (add cr (drop_empty rq an w) an w)) = history (snd (add cr rq an w))"
    by simp_all
qed

text \<open>
  C8. A flag whose prompt returns the empty string counts as a flag not given: the run
  leaves the same committed vault and the same committed points as the run whose command
  line has these flags cleared, and in the credential row it stores every such field is
  \<open>None\<close>.
\<close>

theorem add_empty_answers:
  fixes cr :: "'r crypto" and w w' :: "'r world"
  assumes "add cr rq an w = (out, w')"
  shows "committed w' = committed (snd (add cr (drop_empty rq an w) an w)) \<and>
         history w' = history (snd (add cr (drop_empty rq an w) an w)) \<and>
         (credentials (committed w') \<noteq> credentials (committed w) \<longrightarrow>
            (\<exists>c. credentials (committed w') =
                    credentials (committed w) @ [(next_id (committed w), c)] \<and>
                  (arg_username rq \<and> username_ans an = [] \<longrightarrow> username c = None) \<and>
                  (arg_password rq \<and> password_ans an = [] \<longrightarrow> password c = None) \<and>
                  (arg_url rq \<and> url_ans an = [] \<longrightarrow> url c = None) \<and>
                  (arg_primary_email rq \<and> primary_email_ans an = [] \<longrightarrow>
                     primary_email c = None) \<and>
                  (arg_secondary_email rq \<and> secondary_email_ans an = [] \<longrightarrow>
                     secondary_email c = None) \<and>
                  (arg_token rq \<and> token_ans an = [] \<longrightarrow> token c = None) \<and>
                  (arg_recovery_key rq \<and> recovery_key_ans an = [] \<longrightarrow>
                     recovery_key c = None) \<and>
                  (arg_notes rq \<and> fst (multiline_input w) = Inr [] \<longrightarrow>
                     notes_field c = None)))"
proof -
  have eq: "committed w' = committed (snd (add cr (drop_empty rq an w) an w))"
    "history w' = history (snd (add cr (drop_empty rq an w) an w))"
    using assms add_drop_empty [of cr rq an w] by simp_all
  have "\<exists>c. credentials (committed w') =
                    credentials (committed w) @ [(next_id (committed w), c)] \<and>
                  (arg_username rq \<and> username_ans an = [] \<longrightarrow> username c = None) \<and>
                  (arg_password rq \<and> password_ans an = [] \<longrightarrow> password c = None) \<and>
                  (arg_url rq \<and> url_ans an = [] \<longrightarrow> url c = None) \<and>
                  (arg_primary_email rq \<and> primary_email_ans an = [] \<longrightarrow>
                     primary_email c = None) \<and>
                  (arg_secondary_email rq \<and> secondary_email_ans an = [] \<longrightarrow>
                     secondary_email c = None) \<and>
                  (arg_token rq \<and> token_ans an = [] \<longrightarrow> token c = None) \<and>
                  (arg_recovery_key rq \<and> recovery_key_ans an = [] \<longrightarrow>
                     recovery_key c = None) \<and>
                  (arg_notes rq \<and> fst (multiline_input w) = Inr [] \<longrightarrow>
                     notes_field c = None)"
    if ch: "credentials (committed w') \<noteq> credentials (committed w)"
  proof -
    from assms ch obtain pw where
      st: "credentials (committed w') =
           credentials (committed w) @
           [(next_id (committed w),
             fst (encrypt_credential cr pw (arg_name rq)
                    (plain_values rq an (notes_value rq w)) w))]"
      by (rule add_stored)
    let ?c = "fst (encrypt_credential cr pw (arg_name rq) (plain_values rq an (notes_value rq w)) w)"
    note f = encrypt_credential_fields [of cr pw "arg_name rq" "plain_values rq an (notes_value rq w)" w]
    have 1: "arg_username rq \<and> username_ans an = [] \<longrightarrow> username ?c = None"
      using f(3) by auto
    have 2: "arg_password rq \<and> password_ans an = [] \<longrightarrow> password ?c = None"
      using f(4) by auto
    have 3: "arg_url rq \<and> url_ans an = [] \<longrightarrow> url ?c = None"
      using f(5) by auto
    have 4: "arg_primary_email rq \<and> primary_email_ans an = [] \<longrightarrow> primary_email ?c = None"
      using f(7) by auto
    have 5: "arg_secondary_email rq \<and> secondary_email_ans an = [] \<longrightarrow> secondary_email ?c = None"
      using f(8) by auto
    have 6: "arg_token rq \<and> token_ans an = [] \<longrightarrow> token ?c = None"
      using f(9) by auto
    have 7: "arg_recovery_key rq \<and> recovery_key_ans an = [] \<longrightarrow> recovery_key ?c = None"
      using f(6) by auto
    have 8: "arg_notes rq \<and> fst (multiline_input w) = Inr [] \<longrightarrow> notes_field ?c = None"
      using f(10) by (auto simp: notes_value_def)
    show ?thesis
      by (intro exI [of _ ?c] conjI st 1 2 3 4 5 6 7 8)
  qed
  then show ?thesis
    by (intro conjI impI eq)
qed

theorem add_empty_answers_witness:
  "arg_username blank_request \<and> username_ans blank_answers = [] \<and>
   arg_notes blank_request \<and> fst (multiline_input blank_world) = Inr [] \<and>
   username (snd (last (credentials (committed (snd (add sample_crypto blank_request
      blank_answers blank_world)))))) = None \<and>
   notes_field (snd (last (credentials (committed (snd (add sample_crypto blank_request
      blank_answers blank_world)))))) = None \<and>
   \<not> arg_username (drop_empty blank_request blank_answers blank_world) \<and>
   \<not> arg_notes (drop_empty blank_request blank_answers blank_world) \<and>
   committed (snd (add sample_crypto blank_request blank_answers blank_world)) =
     committed (snd (add sample_crypto (drop_empty blank_request blank_answers blank_world)
        blank_answers blank_world))"
proof -
  have h: "add sample_crypto blank_request blank_answers blank_world =
      (fst (add sample_crypto blank_request blank_answers blank_world),
       snd (add sample_crypto blank_request blank_answers blank_world))"
    by simp
  have m: "fst (multiline_input blank_world) = Inr []"
    by (simp add: multiline_input_def emit_def sample_defs)
  have e: "username (snd (last (credentials (committed (snd (add sample_crypto blank_request
      blank_answers blank_world)))))) = None \<and>
   notes_field (snd (last (credentials (committed (snd (add sample_crypto blank_request
      blank_answers blank_world)))))) = None"
    by (simp add: add_defs sample_defs)
  from add_empty_answers [OF h] m e show ?thesis
    by (simp add: drop_empty_def) (simp add: sample_defs)
qed

subsection \<open>Two runs at once\<close>

text \<open>
  Run alone, the three steps are \<open>persist\<close>: the same committed vault and the same
  outcome.
\<close>

lemma persist_steps:
  assumes "persist_step rq c Checking (committed w) = (s1, v1)"
    and "persist_step rq c s1 v1 = (s2, v2)"
    and "persist_step rq c s2 v2 = (s3, v3)"
  shows "committed (snd (persist rq c w)) = v3"
    and "\<exists>r. s3 = Ended r \<and> fst (persist rq c w) = outcome_of r"
  using assms
  by (auto simp: persist_def session_commit_def Let_def emit_def
        split: option.splits if_splits)








end
